theory Spec2Isabelle
  imports Main
begin

section \<open>CoBAUI: the adaptation controller, its producers and its adaptive widgets\<close>

text \<open>
  The repository is an Angular library built on RxJS 6 (the README names Angular CLI 7.3.6, and
  \<^verbatim>\<open>combineLatest\<close> is imported from the package root).  Every class of the library is a record
  here, every method a function on an explicit state.  Arrays that the code shares by reference
  and mutates in place (\<^verbatim>\<open>this.contextParams.push\<close>, \<^verbatim>\<open>this.rules.push\<close>) live in a store of
  arrays and are named by their address; everything the code prints or calls on a collaborator is
  appended to a trace.

  Methods keep their names.  Where two classes have a method of the same name the class is
  prefixed: \<open>AC_updateContext\<close> and \<open>AC_updateRules\<close> are the controller's, \<open>CP_updateContext\<close>
  the context provider's, \<open>RP_updateRules\<close> the rule provider's.  What the code leaves to RxJS
  (subjects, \<^verbatim>\<open>combineLatest\<close>, \<^verbatim>\<open>filter\<close>, \<^verbatim>\<open>subscribe\<close>) is written out in \<open>deliver\<close>,
  \<open>cp_notify\<close>, \<open>rp_notify\<close> and the observer lists.
\<close>

subsection \<open>Data model (the interface files)\<close>

datatype any = JStr string | JNum int | JBool bool | JUndefined

datatype ContextOfUse = User | Platform | Environment

datatype ContextValueType = TString | TNumber | TBoolean | TArray | TObject

text \<open>
  \<^verbatim>\<open>ContextParam\<close>: the optional \<^verbatim>\<open>type\<close> is the field \<open>ptype\<close>, an option; \<^verbatim>\<open>value\<close> is the
  field \<open>val\<close>.
\<close>

record ContextParam =
  contextOfUse :: ContextOfUse
  ptype :: "ContextValueType option"
  key :: string
  val :: any

text \<open>\<^verbatim>\<open>AdaptationAction\<close>: \<^verbatim>\<open>scope?\<close> and \<^verbatim>\<open>params?\<close> are optional, an absent one is \<open>None\<close>.\<close>

record AdaptationAction =
  target :: string
  scope :: "string list option"
  name :: string
  params :: "(string \<times> any) list option"

text \<open>\<^verbatim>\<open>AdaptationRule\<close>; its \<^verbatim>\<open>name\<close> is the field \<open>rule_name\<close>.\<close>

record AdaptationRule =
  rule_name :: string
  condition :: string
  actions :: "AdaptationAction list"

datatype error = TypeError string | Thrown string

subsection \<open>Objects\<close>

type_synonym addr = nat

text \<open>
  \<^verbatim>\<open>ContextProvider\<close>: \<open>contextParams\<close> is the reference held by \<^verbatim>\<open>this.contextParams\<close>,
  \<open>contextParams_S\<close> the reference held as current value by the BehaviorSubject
  \<^verbatim>\<open>this.contextParams$\<close>.
\<close>

record ContextProvider =
  contextParams :: addr
  contextParams_S :: addr

text \<open>\<^verbatim>\<open>RuleProvider\<close>: \<open>rules\<close> is \<^verbatim>\<open>this.rules\<close>, \<open>rules_S\<close> the value of \<^verbatim>\<open>this.rules$\<close>.\<close>

record RuleProvider =
  rules :: addr
  rules_S :: addr

text \<open>
  \<^verbatim>\<open>RuleEvaluator.evaluate\<close> is abstract.  A strategy is represented by the actions it hands to
  the callback, in order, as a function of the rules and the context it is given; a strategy
  that raises, or that calls back into the controller, is not represented.
\<close>

type_synonym RuleEvaluator = "AdaptationRule list \<Rightarrow> ContextParam list \<Rightarrow> AdaptationAction list"

text \<open>
  \<^verbatim>\<open>AdaptiveWidget\<close>: \<open>widget_name\<close> is the constructor parameter \<^verbatim>\<open>name\<close>; \<open>adapt\<close> is the
  (overridable) method, represented by whether it returns (\<open>None\<close>) or raises; \<open>closed\<close> is the
  state of the subscription that \<^verbatim>\<open>setupAdaptivity\<close> creates and drops.
\<close>

record AdaptiveWidget =
  widget_name :: string
  namespace :: string
  adapt :: "AdaptationAction \<Rightarrow> error option"
  closed :: bool

text \<open>
  \<^verbatim>\<open>AdaptationController\<close>: the two provider lists hold object identities; \<open>context_S\<close> and
  \<open>acRules_S\<close> are the values of \<^verbatim>\<open>context$\<close> and \<^verbatim>\<open>rules$\<close> (fresh arrays built by
  \<^verbatim>\<open>[].concat\<close>, never mutated, hence plain lists); \<open>cpSubscription\<close> and \<open>rpSubscription\<close> are the
  \<^verbatim>\<open>values\<close> slots of the \<^verbatim>\<open>combineLatest\<close> behind the current subscription, one per source,
  \<open>None\<close> while the source has not delivered.
\<close>

record AdaptationController =
  contextProviders :: "nat list"
  ruleProviders :: "nat list"
  context_S :: "ContextParam list"
  acRules_S :: "AdaptationRule list"
  ruleEvaluator :: "RuleEvaluator option"
  cpSubscription :: "addr option list"
  rpSubscription :: "addr option list"

datatype event =
    ContextEmitted nat "ContextParam list"
  | RulesEmitted nat "AdaptationRule list"
  | ContextUpdated "ContextParam list"
  | RulesUpdated "AdaptationRule list"
  | EvaluationTriggered
  | Evaluated "AdaptationRule list" "ContextParam list"
  | Logged string
  | ActionFired AdaptationAction
  | Adapted nat AdaptationAction
  | Reported error

record world =
  ctx_arrays :: "addr \<Rightarrow> ContextParam list"
  ctx_fresh :: addr
  rule_arrays :: "addr \<Rightarrow> AdaptationRule list"
  rule_fresh :: addr
  contextProvider :: "nat \<Rightarrow> ContextProvider"
  ruleProvider :: "nat \<Rightarrow> RuleProvider"
  controller :: AdaptationController
  widgets :: "AdaptiveWidget list"
  trace :: "event list"

definition say :: "event \<Rightarrow> world \<Rightarrow> world" where
  "say e s = s\<lparr>trace := trace s @ [e]\<rparr>"

definition new_events :: "world \<Rightarrow> world \<Rightarrow> event list" where
  "new_events s s' = drop (length (trace s)) (trace s')"

subsection \<open>adaptive-widget.base.ts\<close>

text \<open>
  The predicate given to \<^verbatim>\<open>filter\<close> in \<^verbatim>\<open>setupAdaptivity\<close>.  \<^verbatim>\<open>&&\<close> and \<^verbatim>\<open>||\<close> short-circuit;
  reading \<^verbatim>\<open>.length\<close> of an absent scope raises a TypeError.
\<close>

definition setupAdaptivity_filter :: "AdaptiveWidget \<Rightarrow> AdaptationAction \<Rightarrow> error + bool" where
  "setupAdaptivity_filter w a =
     (if target a = widget_name w
      then (case scope a of
              None \<Rightarrow> Inl (TypeError ''Cannot read property length of undefined'')
            | Some sc \<Rightarrow> Inr (length sc = 0 \<or> namespace w \<in> set sc))
      else Inr False)"

definition close_widget :: "nat \<Rightarrow> world \<Rightarrow> world" where
  "close_widget i s = s\<lparr>widgets := (widgets s)[i := (widgets s ! i)\<lparr>closed := True\<rparr>]\<rparr>"

text \<open>
  One subscriber of \<^verbatim>\<open>adaptationActions$\<close> receiving an action: the filter, then
  \<^verbatim>\<open>action => this.adapt(action)\<close>.  In RxJS 6 an exception of the predicate goes to the
  subscriber's \<^verbatim>\<open>error\<close>, an exception of the \<^verbatim>\<open>next\<close> callback is caught; both unsubscribe
  this subscriber and report the error asynchronously, and the subject goes on.
\<close>

definition deliver :: "AdaptationAction \<Rightarrow> nat \<Rightarrow> world \<Rightarrow> world" where
  "deliver a i s =
     (let w = widgets s ! i in
      if closed w then s
      else case setupAdaptivity_filter w a of
             Inl e \<Rightarrow> say (Reported e) (close_widget i s)
           | Inr False \<Rightarrow> s
           | Inr True \<Rightarrow>
               (case adapt w a of
                  None \<Rightarrow> say (Adapted i a) s
                | Some e \<Rightarrow> say (Reported e) (close_widget i (say (Adapted i a) s))))"

text \<open>The constructor: \<^verbatim>\<open>namespace\<close> starts as the empty string, \<^verbatim>\<open>setupAdaptivity\<close> subscribes.\<close>

definition AdaptiveWidget_new :: "string \<Rightarrow> (AdaptationAction \<Rightarrow> error option) \<Rightarrow> world \<Rightarrow> world" where
  "AdaptiveWidget_new nm ad s =
     s\<lparr>widgets := widgets s @ [\<lparr>widget_name = nm, namespace = [], adapt = ad, closed = False\<rparr>]\<rparr>"

text \<open>The input binding \<^verbatim>\<open>aui-namespace\<close>.\<close>

definition set_namespace :: "nat \<Rightarrow> string \<Rightarrow> world \<Rightarrow> world" where
  "set_namespace i ns s = s\<lparr>widgets := (widgets s)[i := (widgets s ! i)\<lparr>namespace := ns\<rparr>]\<rparr>"

text \<open>\<^verbatim>\<open>ngOnDestroy() { }\<close>: the body is empty.\<close>

definition ngOnDestroy :: "nat \<Rightarrow> world \<Rightarrow> world" where
  "ngOnDestroy i s = s"

text \<open>The base class's \<^verbatim>\<open>adapt\<close> only prints.\<close>

definition adapt_base :: "AdaptationAction \<Rightarrow> error option" where
  "adapt_base a = None"

subsection \<open>adaptation-controller.ts: evaluation and dispatch\<close>

text \<open>
  \<^verbatim>\<open>fireAdaptation\<close>: \<^verbatim>\<open>Subject.next\<close> walks the subscribers in subscription order, then the
  method prints.
\<close>

definition fireAdaptation :: "AdaptationAction \<Rightarrow> world \<Rightarrow> world" where
  "fireAdaptation a s = say (ActionFired a) (fold (deliver a) [0..<length (widgets s)] s)"

text \<open>
  \<^verbatim>\<open>context$\<close> and \<^verbatim>\<open>rules$\<close> have no subscriber inside the library; \<^verbatim>\<open>next\<close> on them stores the
  value that \<^verbatim>\<open>getContext\<close> and \<^verbatim>\<open>getRules\<close> read.
\<close>

definition getContext :: "world \<Rightarrow> ContextParam list" where
  "getContext s = context_S (controller s)"

definition getRules :: "world \<Rightarrow> AdaptationRule list" where
  "getRules s = acRules_S (controller s)"

definition evaluateAdaptationRules :: "world \<Rightarrow> world" where
  "evaluateAdaptationRules s =
     (case ruleEvaluator (controller s) of
        Some ev \<Rightarrow>
          fold fireAdaptation (ev (getRules s) (getContext s))
            (say (Evaluated (getRules s) (getContext s)) (say EvaluationTriggered s))
      | None \<Rightarrow>
          say (Logged ''AUI: Evaluation could not be started. No RuleEvaluator set.'')
            (say EvaluationTriggered s))"

definition AC_updateContext :: "ContextParam list \<Rightarrow> world \<Rightarrow> world" where
  "AC_updateContext ps s =
     evaluateAdaptationRules
       ((say (ContextUpdated ps) s)\<lparr>controller := (controller s)\<lparr>context_S := ps\<rparr>\<rparr>)"

definition AC_updateRules :: "AdaptationRule list \<Rightarrow> world \<Rightarrow> world" where
  "AC_updateRules rs s =
     evaluateAdaptationRules
       ((say (RulesUpdated rs) s)\<lparr>controller := (controller s)\<lparr>acRules_S := rs\<rparr>\<rparr>)"

definition registerRuleEvaluator :: "RuleEvaluator \<Rightarrow> world \<Rightarrow> world" where
  "registerRuleEvaluator ev s = s\<lparr>controller := (controller s)\<lparr>ruleEvaluator := Some ev\<rparr>\<rparr>"

subsection \<open>The context provider base class\<close>

text \<open>
  The constructor: \<^verbatim>\<open>contextParams\<close> and the initial value of \<^verbatim>\<open>contextParams$\<close> are two
  distinct empty arrays.  With \<^verbatim>\<open>UpdateMethod.INTERVAL\<close> the constructor starts a timer; a tick
  of the timer is a call of \<open>CP_updateContext\<close>.
\<close>

definition ContextProvider_new :: "nat \<Rightarrow> world \<Rightarrow> world" where
  "ContextProvider_new q s =
     (let a = ctx_fresh s in
      s\<lparr>ctx_arrays := (ctx_arrays s)(a := [], Suc a := []),
        ctx_fresh := Suc (Suc a),
        contextProvider := (contextProvider s)(q := \<lparr>contextParams = a, contextParams_S = Suc a\<rparr>)\<rparr>)"

text \<open>In JavaScript every array, the empty one included, is truthy.\<close>

definition truthy :: "'a list \<Rightarrow> bool" where
  "truthy xs = True"

definition params_of :: "nat \<Rightarrow> world \<Rightarrow> ContextParam list" where
  "params_of q s = ctx_arrays s (contextParams (contextProvider s q))"

definition addContextParam :: "nat \<Rightarrow> ContextParam \<Rightarrow> world \<Rightarrow> world" where
  "addContextParam q newParam s =
     (let a = contextParams (contextProvider s q) in
      if truthy (filter (\<lambda>param. key param = key newParam) (ctx_arrays s a))
      then s\<lparr>ctx_arrays := (ctx_arrays s)(a := ctx_arrays s a @ [newParam])\<rparr>
      else s)"

text \<open>\<^verbatim>\<open>Array.prototype.filter\<close> builds a new array; the old one stays as it is.\<close>

definition removeContextParam :: "nat \<Rightarrow> string \<Rightarrow> world \<Rightarrow> world" where
  "removeContextParam q k s =
     (let a = contextParams (contextProvider s q); b = ctx_fresh s in
      s\<lparr>ctx_arrays := (ctx_arrays s)(b := filter (\<lambda>param. key param \<noteq> k) (ctx_arrays s a)),
        ctx_fresh := Suc b,
        contextProvider := (contextProvider s)(q := (contextProvider s q)\<lparr>contextParams := b\<rparr>)\<rparr>)"

text \<open>\<^verbatim>\<open>find\<close> returns the first match or \<^verbatim>\<open>undefined\<close>; on two strings \<^verbatim>\<open>==\<close> is equality.\<close>

definition getContextParam :: "nat \<Rightarrow> string \<Rightarrow> world \<Rightarrow> ContextParam option" where
  "getContextParam q k s = find (\<lambda>param. key param = k) (params_of q s)"

definition modifyContextParam :: "nat \<Rightarrow> string \<Rightarrow> any \<Rightarrow> world \<Rightarrow> world" where
  "modifyContextParam q k newValue s =
     (case getContextParam q k s of
        Some oldParam \<Rightarrow>
          addContextParam q
            \<lparr>contextOfUse = contextOfUse oldParam, ptype = ptype oldParam,
             key = key oldParam, val = newValue\<rparr>
            (removeContextParam q k s)
      | None \<Rightarrow> s)"

subsection \<open>The barrier join of the controller (context side)\<close>

text \<open>
  The only subscribers of a provider's subject are the inner subscriptions of the controller's
  current \<^verbatim>\<open>combineLatest\<close>, one per slot whose source is that provider, in slot order;
  \<^verbatim>\<open>cpSubscription.unsubscribe()\<close> removes those of the previous one.
\<close>

definition cp_observers :: "world \<Rightarrow> nat \<Rightarrow> nat list" where
  "cp_observers s q =
     filter (\<lambda>i. contextProviders (controller s) ! i = q)
       [0..<length (cpSubscription (controller s))]"

text \<open>
  \<^verbatim>\<open>combineLatest\<close> receiving array \<open>a\<close> from source \<open>i\<close>: the slot is written, and once no slot
  is empty the slots are handed on; \<^verbatim>\<open>map(nestedParams => [].concat(...nestedParams))\<close> flattens
  them as they are at that moment and the subscriber calls \<^verbatim>\<open>updateContext\<close>.  The index is
  that of an inner subscription, hence always below the number of slots.
\<close>

definition cp_notify :: "addr \<Rightarrow> nat \<Rightarrow> world \<Rightarrow> world" where
  "cp_notify a i s =
     (let vals = (cpSubscription (controller s))[i := Some a];
          s1 = s\<lparr>controller := (controller s)\<lparr>cpSubscription := vals\<rparr>\<rparr>
      in case those vals of
           Some nestedParams \<Rightarrow> AC_updateContext (concat (map (ctx_arrays s) nestedParams)) s1
         | None \<Rightarrow> s1)"

text \<open>\<^verbatim>\<open>ContextProvider.updateContext\<close>: \<^verbatim>\<open>this.contextParams$.next(this.contextParams)\<close>.\<close>

definition CP_updateContext :: "nat \<Rightarrow> world \<Rightarrow> world" where
  "CP_updateContext q s =
     (let a = contextParams (contextProvider s q);
          s1 = say (ContextEmitted q (ctx_arrays s a))
                 (s\<lparr>contextProvider :=
                      (contextProvider s)(q := (contextProvider s q)\<lparr>contextParams_S := a\<rparr>)\<rparr>)
      in fold (cp_notify a) (cp_observers s q) s1)"

text \<open>
  \<^verbatim>\<open>registerContextProvider\<close>, for the provider the injector returns: the provider is pushed, a
  new \<^verbatim>\<open>combineLatest\<close> over all providers replaces the old subscription, and subscribing to a
  BehaviorSubject delivers its current value at once.
\<close>

definition registerContextProvider :: "nat \<Rightarrow> world \<Rightarrow> world" where
  "registerContextProvider q s =
     (let ps = contextProviders (controller s) @ [q];
          s1 = s\<lparr>controller := (controller s)
                  \<lparr>contextProviders := ps, cpSubscription := replicate (length ps) None\<rparr>\<rparr>
      in fold (\<lambda>i t. cp_notify (contextParams_S (contextProvider t (ps ! i))) i t)
           [0..<length ps] s1)"

subsection \<open>The rule provider base class and the join on the rule side\<close>

definition RuleProvider_new :: "nat \<Rightarrow> world \<Rightarrow> world" where
  "RuleProvider_new q s =
     (let a = rule_fresh s in
      s\<lparr>rule_arrays := (rule_arrays s)(a := [], Suc a := []),
        rule_fresh := Suc (Suc a),
        ruleProvider := (ruleProvider s)(q := \<lparr>rules = a, rules_S = Suc a\<rparr>)\<rparr>)"

definition rules_of :: "nat \<Rightarrow> world \<Rightarrow> AdaptationRule list" where
  "rules_of q s = rule_arrays s (rules (ruleProvider s q))"

definition rp_observers :: "world \<Rightarrow> nat \<Rightarrow> nat list" where
  "rp_observers s q =
     filter (\<lambda>i. ruleProviders (controller s) ! i = q)
       [0..<length (rpSubscription (controller s))]"

definition rp_notify :: "addr \<Rightarrow> nat \<Rightarrow> world \<Rightarrow> world" where
  "rp_notify a i s =
     (let vals = (rpSubscription (controller s))[i := Some a];
          s1 = s\<lparr>controller := (controller s)\<lparr>rpSubscription := vals\<rparr>\<rparr>
      in case those vals of
           Some nestedParams \<Rightarrow> AC_updateRules (concat (map (rule_arrays s) nestedParams)) s1
         | None \<Rightarrow> s1)"

text \<open>\<^verbatim>\<open>this.rules$.next(this.rules)\<close>, the body of \<^verbatim>\<open>updateRules\<close> and the tail of the other two.\<close>

definition RP_updateRules :: "nat \<Rightarrow> world \<Rightarrow> world" where
  "RP_updateRules q s =
     (let a = rules (ruleProvider s q);
          s1 = say (RulesEmitted q (rule_arrays s a))
                 (s\<lparr>ruleProvider := (ruleProvider s)(q := (ruleProvider s q)\<lparr>rules_S := a\<rparr>)\<rparr>)
      in fold (rp_notify a) (rp_observers s q) s1)"

definition addRule :: "nat \<Rightarrow> AdaptationRule \<Rightarrow> world \<Rightarrow> world" where
  "addRule q rule s =
     (let a = rules (ruleProvider s q) in
      RP_updateRules q (s\<lparr>rule_arrays := (rule_arrays s)(a := rule_arrays s a @ [rule])\<rparr>))"

definition removeRule :: "nat \<Rightarrow> string \<Rightarrow> world \<Rightarrow> world" where
  "removeRule q nm s =
     (let a = rules (ruleProvider s q); b = rule_fresh s in
      RP_updateRules q
        (s\<lparr>rule_arrays := (rule_arrays s)(b := filter (\<lambda>rule. rule_name rule \<noteq> nm) (rule_arrays s a)),
           rule_fresh := Suc b,
           ruleProvider := (ruleProvider s)(q := (ruleProvider s q)\<lparr>rules := b\<rparr>)\<rparr>))"

definition registerRuleProvider :: "nat \<Rightarrow> world \<Rightarrow> world" where
  "registerRuleProvider q s =
     (let ps = ruleProviders (controller s) @ [q];
          s1 = s\<lparr>controller := (controller s)
                  \<lparr>ruleProviders := ps, rpSubscription := replicate (length ps) None\<rparr>\<rparr>
      in fold (\<lambda>i t. rp_notify (rules_S (ruleProvider t (ps ! i))) i t)
           [0..<length ps] s1)"

subsection \<open>The initial state\<close>

text \<open>
  A controller as its field initialisers leave it, no widget, and no provider constructed yet
  (the object stores are total, their entries mean nothing before the constructor has run).
\<close>

definition AdaptationController_new :: AdaptationController where
  "AdaptationController_new =
     \<lparr>contextProviders = [], ruleProviders = [], context_S = [], acRules_S = [],
      ruleEvaluator = None, cpSubscription = [], rpSubscription = []\<rparr>"

definition init :: world where
  "init =
     \<lparr>ctx_arrays = (\<lambda>_. []), ctx_fresh = 0, rule_arrays = (\<lambda>_. []), rule_fresh = 0,
      contextProvider = (\<lambda>_. \<lparr>contextParams = 0, contextParams_S = 0\<rparr>),
      ruleProvider = (\<lambda>_. \<lparr>rules = 0, rules_S = 0\<rparr>),
      controller = AdaptationController_new, widgets = [], trace = []\<rparr>"

subsection \<open>Reading the trace and the join\<close>

text \<open>The kinds of events: what a widget subscription adds, what a producer emits, and the rest.\<close>

fun dispatch_event :: "event \<Rightarrow> bool" where
  "dispatch_event (ActionFired a) = True"
| "dispatch_event (Adapted i a) = True"
| "dispatch_event (Reported e) = True"
| "dispatch_event _ = False"

fun producer_event :: "event \<Rightarrow> bool" where
  "producer_event (ContextEmitted q ps) = True"
| "producer_event (RulesEmitted q rs) = True"
| "producer_event _ = False"

fun context_published :: "event \<Rightarrow> bool" where
  "context_published (ContextUpdated ps) = True"
| "context_published _ = False"

fun rules_published :: "event \<Rightarrow> bool" where
  "rules_published (RulesUpdated rs) = True"
| "rules_published _ = False"

fun trigger :: "event \<Rightarrow> bool" where
  "trigger EvaluationTriggered = True"
| "trigger _ = False"

text \<open>An event that carries a rule set carries the rule \<open>r\<close>.\<close>

fun rules_seen :: "AdaptationRule \<Rightarrow> event \<Rightarrow> bool" where
  "rules_seen r (RulesUpdated rs) = (r \<in> set rs)"
| "rules_seen r (Evaluated rs cx) = (r \<in> set rs)"
| "rules_seen r _ = True"

text \<open>What one subscriber adds to the trace when an action arrives, read off \<open>deliver\<close>.\<close>

definition deliver_events :: "AdaptationAction \<Rightarrow> world \<Rightarrow> nat \<Rightarrow> event list" where
  "deliver_events a s i =
     (let w = widgets s ! i in
      if closed w then []
      else case setupAdaptivity_filter w a of
             Inl e \<Rightarrow> [Reported e]
           | Inr False \<Rightarrow> []
           | Inr True \<Rightarrow>
               (case adapt w a of None \<Rightarrow> [Adapted i a] | Some e \<Rightarrow> [Adapted i a, Reported e]))"

text \<open>
  The join is in step with the producers when every slot holds the array its producer's subject
  holds; \<open>merged_context\<close> is then what it publishes: the arrays last emitted by the producers,
  as they are now, in registration order.
\<close>

definition cp_joined :: "world \<Rightarrow> bool" where
  "cp_joined s \<longleftrightarrow>
     cpSubscription (controller s) =
       map (\<lambda>q. Some (contextParams_S (contextProvider s q))) (contextProviders (controller s))"

definition merged_context :: "world \<Rightarrow> ContextParam list" where
  "merged_context s =
     concat (map (\<lambda>q. ctx_arrays s (contextParams_S (contextProvider s q)))
       (contextProviders (controller s)))"

definition cp_flat :: "world \<Rightarrow> ContextParam list" where
  "cp_flat s = concat (map (\<lambda>v. case v of None \<Rightarrow> [] | Some b \<Rightarrow> ctx_arrays s b)
      (cpSubscription (controller s)))"

definition cp_full :: "world \<Rightarrow> bool" where
  "cp_full s \<longleftrightarrow> None \<notin> set (cpSubscription (controller s))"



definition rp_joined :: "world \<Rightarrow> bool" where
  "rp_joined s \<longleftrightarrow>
     rpSubscription (controller s) =
       map (\<lambda>q. Some (rules_S (ruleProvider s q))) (ruleProviders (controller s))"

definition merged_rules :: "world \<Rightarrow> AdaptationRule list" where
  "merged_rules s =
     concat (map (\<lambda>q. rule_arrays s (rules_S (ruleProvider s q)))
       (ruleProviders (controller s)))"

definition rp_flat :: "world \<Rightarrow> AdaptationRule list" where
  "rp_flat s = concat (map (\<lambda>v. case v of None \<Rightarrow> [] | Some b \<Rightarrow> rule_arrays s b)
      (rpSubscription (controller s)))"

definition rp_full :: "world \<Rightarrow> bool" where
  "rp_full s \<longleftrightarrow> None \<notin> set (rpSubscription (controller s))"

subsection \<open>Scenarios\<close>

text \<open>Two buttons of the README's kind and two actions, one with an empty and one without scope.\<close>

definition show_all :: AdaptationAction where
  "show_all = \<lparr>target = ''Btn'', scope = Some [], name = ''SHOW'', params = None\<rparr>"

definition show_unscoped :: AdaptationAction where
  "show_unscoped = \<lparr>target = ''Btn'', scope = None, name = ''SHOW'', params = None\<rparr>"

definition one_button :: world where
  "one_button = set_namespace 0 ''left'' (AdaptiveWidget_new ''Btn'' adapt_base init)"

definition two_buttons :: world where
  "two_buttons =
     set_namespace 1 ''right'' (AdaptiveWidget_new ''Btn'' adapt_base
       (set_namespace 0 ''left'' (AdaptiveWidget_new ''Btn'' (\<lambda>a. Some (Thrown ''boom'')) init)))"

text \<open>
  A context provider that holds one parameter is registered, emits, and a second provider is
  constructed and registered.
\<close>

definition handedness_left :: ContextParam where
  "handedness_left = \<lparr>contextOfUse = User, ptype = None, key = ''handedness'', val = JStr ''left''\<rparr>"

definition cx0 :: world where
  "cx0 = addContextParam 0 handedness_left (ContextProvider_new 0 init)"

definition cx1 :: world where
  "cx1 = registerContextProvider 0 cx0"

definition cx2 :: world where
  "cx2 = CP_updateContext 0 cx1"

definition cx3 :: world where
  "cx3 = ContextProvider_new 1 cx2"

definition cx4 :: world where
  "cx4 = registerContextProvider 1 cx3"


definition width_320 :: ContextParam where
  "width_320 = \<lparr>contextOfUse = Platform, ptype = Some TNumber, key = ''width'', val = JNum 320\<rparr>"

definition al0 :: world where
  "al0 = ContextProvider_new 1 (addContextParam 0 width_320 cx2)"

text \<open>A rule provider registered once, and the same provider registered twice.\<close>

definition rule_R :: AdaptationRule where
  "rule_R = \<lparr>rule_name = ''R'', condition = ''c.user.handedness == 1'', actions = [show_all]\<rparr>"

definition rx1 :: world where
  "rx1 = registerRuleProvider 0 (RuleProvider_new 0 init)"

definition rx2 :: world where
  "rx2 = registerRuleProvider 0 rx1"

subsection \<open>The states the library can be in\<close>

text \<open>
  What an application can do with the library, one call at a time, starting from the initial
  state.  A constructor yields a new object, so the provider it builds is not yet registered;
  \<open>fireAdaptation\<close> is what a strategy does with its callback.
\<close>

inductive reachable :: "world \<Rightarrow> bool" where
  r_init: "reachable init"
| r_cp_new: "reachable s \<Longrightarrow> q \<notin> set (contextProviders (controller s)) \<Longrightarrow>
     reachable (ContextProvider_new q s)"
| r_rp_new: "reachable s \<Longrightarrow> q \<notin> set (ruleProviders (controller s)) \<Longrightarrow>
     reachable (RuleProvider_new q s)"
| r_add_param: "reachable s \<Longrightarrow> reachable (addContextParam q p s)"
| r_remove_param: "reachable s \<Longrightarrow> reachable (removeContextParam q k s)"
| r_modify_param: "reachable s \<Longrightarrow> reachable (modifyContextParam q k v s)"
| r_cp_update: "reachable s \<Longrightarrow> reachable (CP_updateContext q s)"
| r_rp_update: "reachable s \<Longrightarrow> reachable (RP_updateRules q s)"
| r_add_rule: "reachable s \<Longrightarrow> reachable (addRule q r s)"
| r_remove_rule: "reachable s \<Longrightarrow> reachable (removeRule q nm s)"
| r_register_cp: "reachable s \<Longrightarrow> reachable (registerContextProvider q s)"
| r_register_rp: "reachable s \<Longrightarrow> reachable (registerRuleProvider q s)"
| r_register_re: "reachable s \<Longrightarrow> reachable (registerRuleEvaluator ev s)"
| r_widget_new: "reachable s \<Longrightarrow> reachable (AdaptiveWidget_new nm ad s)"
| r_namespace: "reachable s \<Longrightarrow> reachable (set_namespace i ns s)"
| r_destroy: "reachable s \<Longrightarrow> reachable (ngOnDestroy i s)"
| r_fire: "reachable s \<Longrightarrow> reachable (fireAdaptation a s)"

section \<open>Lemmas\<close>

subsection \<open>Dispatch and evaluation\<close>

lemma say_simps [simp]:
  "trace (say e s) = trace s @ [e]"
  "widgets (say e s) = widgets s"
  "controller (say e s) = controller s"
  "ctx_arrays (say e s) = ctx_arrays s"
  "rule_arrays (say e s) = rule_arrays s"
  "contextProvider (say e s) = contextProvider s"
  "ruleProvider (say e s) = ruleProvider s"
  "ctx_fresh (say e s) = ctx_fresh s"
  "rule_fresh (say e s) = rule_fresh s"
  by (simp_all add: say_def)

lemma close_widget_simps [simp]:
  "trace (close_widget i s) = trace s"
  "controller (close_widget i s) = controller s"
  "ctx_arrays (close_widget i s) = ctx_arrays s"
  "rule_arrays (close_widget i s) = rule_arrays s"
  "contextProvider (close_widget i s) = contextProvider s"
  "ruleProvider (close_widget i s) = ruleProvider s"
  "length (widgets (close_widget i s)) = length (widgets s)"
  by (simp_all add: close_widget_def)

lemma deliver_trace: "trace (deliver a i s) = trace s @ deliver_events a s i"
  by (simp add: deliver_def deliver_events_def Let_def split: sum.splits bool.splits option.splits)

lemma deliver_frame [simp]:
  "controller (deliver a i s) = controller s"
  "ctx_arrays (deliver a i s) = ctx_arrays s"
  "rule_arrays (deliver a i s) = rule_arrays s"
  "contextProvider (deliver a i s) = contextProvider s"
  "ruleProvider (deliver a i s) = ruleProvider s"
  "length (widgets (deliver a i s)) = length (widgets s)"
  by (simp_all add: deliver_def Let_def split: sum.splits bool.splits option.splits)

lemma deliver_other: "j \<noteq> i \<Longrightarrow> widgets (deliver a i s) ! j = widgets s ! j"
  by (simp add: deliver_def Let_def close_widget_def split: sum.splits bool.splits option.splits)

lemma deliver_closed_mono: "closed (widgets s ! j) \<Longrightarrow> closed (widgets (deliver a i s) ! j)"
  by (cases "j = i"; cases "i < length (widgets s)")
     (simp_all add: deliver_def Let_def close_widget_def split: sum.splits bool.splits option.splits)

lemma deliver_events_other: "j \<noteq> i \<Longrightarrow> deliver_events a (deliver b i s) j = deliver_events a s j"
  by (simp add: deliver_events_def deliver_other)

lemma fold_deliver_trace:
  "distinct js \<Longrightarrow>
   trace (fold (deliver a) js s) = trace s @ concat (map (deliver_events a s) js)"
proof (induction js arbitrary: s)
  case Nil
  then show ?case by simp
next
  case (Cons i js)
  have eq: "map (deliver_events a (deliver a i s)) js = map (deliver_events a s) js"
  proof (rule map_cong [OF refl])
    fix j assume "j \<in> set js"
    with Cons.prems have "j \<noteq> i" by auto
    then show "deliver_events a (deliver a i s) j = deliver_events a s j"
      by (rule deliver_events_other)
  qed
  have "trace (fold (deliver a) (i # js) s) =
          trace (deliver a i s) @ concat (map (deliver_events a (deliver a i s)) js)"
    using Cons by simp
  then show ?case unfolding eq by (simp add: deliver_trace)
qed

lemma fold_frame:
  "(\<And>x s. g (f x s) = g s) \<Longrightarrow> g (fold f xs s) = g s"
  by (induction xs arbitrary: s) simp_all

lemma fold_deliver_closed: "closed (widgets s ! j) \<Longrightarrow> closed (widgets (fold (deliver a) js s) ! j)"
  by (induction js arbitrary: s) (simp_all add: deliver_closed_mono)

lemma fireAdaptation_trace:
  "trace (fireAdaptation a s) =
     trace s @ concat (map (deliver_events a s) [0..<length (widgets s)]) @ [ActionFired a]"
  by (simp add: fireAdaptation_def fold_deliver_trace)

lemma fireAdaptation_frame [simp]:
  "controller (fireAdaptation a s) = controller s"
  "ctx_arrays (fireAdaptation a s) = ctx_arrays s"
  "rule_arrays (fireAdaptation a s) = rule_arrays s"
  "contextProvider (fireAdaptation a s) = contextProvider s"
  "ruleProvider (fireAdaptation a s) = ruleProvider s"
  "length (widgets (fireAdaptation a s)) = length (widgets s)"
  by (simp_all add: fireAdaptation_def fold_frame fold_frame [where g = "\<lambda>s. length (widgets s)"])

lemma fireAdaptation_closed: "closed (widgets s ! j) \<Longrightarrow> closed (widgets (fireAdaptation a s) ! j)"
  by (simp add: fireAdaptation_def fold_deliver_closed)

lemma deliver_events_dispatch: "list_all dispatch_event (deliver_events a s i)"
  by (simp add: deliver_events_def Let_def split: sum.splits bool.splits option.splits)

lemma fireAdaptation_appends:
  "\<exists>evs. trace (fireAdaptation a s) = trace s @ evs \<and> list_all dispatch_event evs"
  by (simp add: fireAdaptation_trace list_all_iff deliver_events_dispatch [unfolded list_all_iff])

lemma fold_fireAdaptation_appends:
  "\<exists>evs. trace (fold fireAdaptation as s) = trace s @ evs \<and> list_all dispatch_event evs"
proof (induction as arbitrary: s)
  case Nil
  then show ?case by simp
next
  case (Cons a as)
  obtain e1 where e1: "trace (fireAdaptation a s) = trace s @ e1" "list_all dispatch_event e1"
    using fireAdaptation_appends by blast
  obtain e2 where e2: "trace (fold fireAdaptation as (fireAdaptation a s)) = trace (fireAdaptation a s) @ e2"
      "list_all dispatch_event e2"
    using Cons.IH by blast
  show ?case using e1 e2 by (intro exI [of _ "e1 @ e2"]) simp
qed

lemma fold_fireAdaptation_frame [simp]:
  "controller (fold fireAdaptation as s) = controller s"
  "ctx_arrays (fold fireAdaptation as s) = ctx_arrays s"
  "rule_arrays (fold fireAdaptation as s) = rule_arrays s"
  "contextProvider (fold fireAdaptation as s) = contextProvider s"
  "ruleProvider (fold fireAdaptation as s) = ruleProvider s"
  by (simp_all add: fold_frame)

lemma new_events_append [simp]: "trace s' = trace s @ evs \<Longrightarrow> new_events s s' = evs"
  by (simp add: new_events_def)

lemma Adapted_in_deliver_events:
  "Adapted j b \<in> set (deliver_events a s i) \<longleftrightarrow>
     i = j \<and> b = a \<and> \<not> closed (widgets s ! i) \<and> setupAdaptivity_filter (widgets s ! i) a = Inr True"
  by (auto simp add: deliver_events_def Let_def split: sum.splits bool.splits option.splits)

lemma Adapted_in_fireAdaptation:
  "Adapted j b \<in> set (new_events s (fireAdaptation a s)) \<longleftrightarrow>
     j < length (widgets s) \<and> b = a \<and> \<not> closed (widgets s ! j) \<and>
     setupAdaptivity_filter (widgets s ! j) a = Inr True"
  by (auto simp add: fireAdaptation_trace Adapted_in_deliver_events)

lemma closed_no_Adapted:
  "closed (widgets s ! j) \<Longrightarrow> Adapted j b \<notin> set (new_events s (fold fireAdaptation as s))"
proof (induction as arbitrary: s)
  case Nil
  then show ?case by (simp add: new_events_def)
next
  case (Cons a as)
  let ?s1 = "fireAdaptation a s"
  obtain e1 where e1: "trace ?s1 = trace s @ e1"
    using fireAdaptation_appends by blast
  obtain e2 where e2: "trace (fold fireAdaptation as ?s1) = trace ?s1 @ e2"
    using fold_fireAdaptation_appends by blast
  have "Adapted j b \<notin> set e1"
    using Adapted_in_fireAdaptation [of j b s a] Cons.prems e1 by simp
  moreover have "Adapted j b \<notin> set e2"
    using Cons.IH [OF fireAdaptation_closed [OF Cons.prems, of a]] e2 by simp
  moreover have "new_events s (fold fireAdaptation (a # as) s) = e1 @ e2"
    using e1 e2 by simp
  ultimately show ?case by simp
qed


lemma evaluate_shape:
  "\<exists>evs. list_all dispatch_event evs \<and>
     trace (evaluateAdaptationRules s) =
       trace s @ EvaluationTriggered #
         (case ruleEvaluator (controller s) of
            None \<Rightarrow> Logged ''AUI: Evaluation could not be started. No RuleEvaluator set.''
          | Some ev \<Rightarrow> Evaluated (getRules s) (getContext s)) # evs \<and>
     (ruleEvaluator (controller s) = None \<longrightarrow> evs = [])"
proof (cases "ruleEvaluator (controller s)")
  case None
  then show ?thesis by (simp add: evaluateAdaptationRules_def)
next
  case (Some ev)
  let ?s1 = "say (Evaluated (getRules s) (getContext s)) (say EvaluationTriggered s)"
  obtain evs where "trace (fold fireAdaptation (ev (getRules s) (getContext s)) ?s1) = trace ?s1 @ evs"
    "list_all dispatch_event evs"
    using fold_fireAdaptation_appends by blast
  with Some show ?thesis by (simp add: evaluateAdaptationRules_def)
qed

lemma evaluate_frame [simp]:
  "controller (evaluateAdaptationRules s) = controller s"
  "ctx_arrays (evaluateAdaptationRules s) = ctx_arrays s"
  "rule_arrays (evaluateAdaptationRules s) = rule_arrays s"
  "contextProvider (evaluateAdaptationRules s) = contextProvider s"
  "ruleProvider (evaluateAdaptationRules s) = ruleProvider s"
  by (simp_all add: evaluateAdaptationRules_def split: option.splits)

lemma filter_dispatch_none:
  "list_all dispatch_event evs \<Longrightarrow> (\<And>e. dispatch_event e \<Longrightarrow> \<not> P e) \<Longrightarrow> filter P evs = []"
  by (induction evs) auto

lemma AC_updateContext_shape:
  "\<exists>evs. list_all dispatch_event evs \<and>
     trace (AC_updateContext ps s) =
       trace s @ ContextUpdated ps # EvaluationTriggered #
         (case ruleEvaluator (controller s) of
            None \<Rightarrow> Logged ''AUI: Evaluation could not be started. No RuleEvaluator set.''
          | Some ev \<Rightarrow> Evaluated (getRules s) ps) # evs \<and>
     (ruleEvaluator (controller s) = None \<longrightarrow> evs = [])"
  using evaluate_shape [of "(say (ContextUpdated ps) s)\<lparr>controller := (controller s)\<lparr>context_S := ps\<rparr>\<rparr>"]
  by (cases "ruleEvaluator (controller s)") (simp_all add: AC_updateContext_def getRules_def getContext_def)

lemma AC_updateRules_shape:
  "\<exists>evs. list_all dispatch_event evs \<and>
     trace (AC_updateRules rs s) =
       trace s @ RulesUpdated rs # EvaluationTriggered #
         (case ruleEvaluator (controller s) of
            None \<Rightarrow> Logged ''AUI: Evaluation could not be started. No RuleEvaluator set.''
          | Some ev \<Rightarrow> Evaluated rs (getContext s)) # evs \<and>
     (ruleEvaluator (controller s) = None \<longrightarrow> evs = [])"
  using evaluate_shape [of "(say (RulesUpdated rs) s)\<lparr>controller := (controller s)\<lparr>acRules_S := rs\<rparr>\<rparr>"]
  by (cases "ruleEvaluator (controller s)") (simp_all add: AC_updateRules_def getRules_def getContext_def)

lemma AC_update_frame [simp]:
  "controller (AC_updateContext ps s) = (controller s)\<lparr>context_S := ps\<rparr>"
  "controller (AC_updateRules rs s) = (controller s)\<lparr>acRules_S := rs\<rparr>"
  "ctx_arrays (AC_updateContext ps s) = ctx_arrays s"
  "ctx_arrays (AC_updateRules rs s) = ctx_arrays s"
  "rule_arrays (AC_updateContext ps s) = rule_arrays s"
  "rule_arrays (AC_updateRules rs s) = rule_arrays s"
  "contextProvider (AC_updateContext ps s) = contextProvider s"
  "contextProvider (AC_updateRules rs s) = contextProvider s"
  "ruleProvider (AC_updateContext ps s) = ruleProvider s"
  "ruleProvider (AC_updateRules rs s) = ruleProvider s"
  by (simp_all add: AC_updateContext_def AC_updateRules_def)

subsection \<open>Lists of slots\<close>

lemma those_None_iff: "those xs = None \<longleftrightarrow> None \<in> set xs"
  by (induction xs) (auto split: option.splits)

lemma those_map_Some: "those (map Some xs) = Some xs"
  by (induction xs) simp_all

lemma those_Some_flat:
  "those xs = Some ys \<Longrightarrow>
   concat (map h ys) = concat (map (\<lambda>v. case v of None \<Rightarrow> [] | Some b \<Rightarrow> h b) xs)"
  by (induction xs arbitrary: ys) (auto split: option.splits)

lemma fill_step:
  "k < n \<Longrightarrow>
   (map (\<lambda>i. if i < k then Some (v i) else None) [0..<n])[k := Some (v k)] =
     map (\<lambda>i. if i < Suc k then Some (v i) else None) [0..<n]"
  by (rule nth_equalityI) (auto simp add: nth_list_update less_Suc_eq)

lemma nth_fold_update:
  "j < length vs \<Longrightarrow>
   fold (\<lambda>i vs. vs[i := x]) js vs ! j = (if j \<in> set js then x else vs ! j)"
  by (induction js arbitrary: vs) (auto simp add: nth_list_update)

lemma length_fold_update [simp]: "length (fold (\<lambda>i vs. vs[i := x]) js vs) = length vs"
  by (induction js arbitrary: vs) auto

lemma length_filter_indices:
  "length (filter (\<lambda>i. ps ! i = q) [0..<length ps]) = count_list ps q"
proof (induction ps rule: rev_induct)
  case Nil
  then show ?case by simp
next
  case (snoc p ps)
  have "filter (\<lambda>i. (ps @ [p]) ! i = q) [0..<length ps] = filter (\<lambda>i. ps ! i = q) [0..<length ps]"
    by (rule filter_cong) (auto simp add: nth_append)
  with snoc show ?case by simp
qed

lemma map_nth_indices: "map (\<lambda>i. f (ps ! i)) [0..<length ps] = map f ps"
  by (rule nth_equalityI) auto

subsection \<open>The join on the context side\<close>

lemma cp_notify_frame [simp]:
  "ctx_arrays (cp_notify a i s) = ctx_arrays s"
  "rule_arrays (cp_notify a i s) = rule_arrays s"
  "contextProvider (cp_notify a i s) = contextProvider s"
  "ruleProvider (cp_notify a i s) = ruleProvider s"
  "contextProviders (controller (cp_notify a i s)) = contextProviders (controller s)"
  "ruleProviders (controller (cp_notify a i s)) = ruleProviders (controller s)"
  "cpSubscription (controller (cp_notify a i s)) = (cpSubscription (controller s))[i := Some a]"
  "rpSubscription (controller (cp_notify a i s)) = rpSubscription (controller s)"
  "ruleEvaluator (controller (cp_notify a i s)) = ruleEvaluator (controller s)"
  "acRules_S (controller (cp_notify a i s)) = acRules_S (controller s)"
  by (simp_all add: cp_notify_def Let_def split: option.splits)

lemma cp_notify_not_full:
  "None \<in> set ((cpSubscription (controller s))[i := Some a]) \<Longrightarrow>
   cp_notify a i s =
     s\<lparr>controller := (controller s)\<lparr>cpSubscription := (cpSubscription (controller s))[i := Some a]\<rparr>\<rparr>"
  by (simp add: cp_notify_def Let_def those_None_iff [symmetric])

lemma cp_notify_publishes:
  assumes "None \<notin> set ((cpSubscription (controller s))[i := Some a])"
  shows "cp_notify a i s =
     AC_updateContext (cp_flat (cp_notify a i s))
       (s\<lparr>controller := (controller s)\<lparr>cpSubscription := (cpSubscription (controller s))[i := Some a]\<rparr>\<rparr>)"
proof -
  let ?vals = "(cpSubscription (controller s))[i := Some a]"
  from assms obtain vs where vs: "those ?vals = Some vs"
    using those_None_iff [of ?vals] by (cases "those ?vals") auto
  have "concat (map (ctx_arrays s) vs) = cp_flat (cp_notify a i s)"
    using those_Some_flat [OF vs, of "ctx_arrays s"]
    by (simp add: cp_flat_def cong: option.case_cong)
  then show ?thesis using vs by (simp add: cp_notify_def Let_def)
qed

lemma cp_full_update: "cp_full s \<Longrightarrow> None \<notin> set ((cpSubscription (controller s))[i := Some a])"
  using set_update_subset_insert [of "cpSubscription (controller s)" i "Some a"]
  by (auto simp add: cp_full_def)

lemma cp_notify_fires_shape:
  assumes "None \<notin> set ((cpSubscription (controller s))[i := Some a])"
  shows "\<exists>evs. list_all dispatch_event evs \<and>
     trace (cp_notify a i s) =
       trace s @ ContextUpdated (cp_flat (cp_notify a i s)) # EvaluationTriggered #
         (case ruleEvaluator (controller s) of
            None \<Rightarrow> Logged ''AUI: Evaluation could not be started. No RuleEvaluator set.''
          | Some ev \<Rightarrow> Evaluated (getRules s) (cp_flat (cp_notify a i s))) # evs"
proof -
  let ?s1 = "s\<lparr>controller := (controller s)\<lparr>cpSubscription := (cpSubscription (controller s))[i := Some a]\<rparr>\<rparr>"
  let ?ps = "cp_flat (cp_notify a i s)"
  have eq: "cp_notify a i s = AC_updateContext ?ps ?s1"
    using cp_notify_publishes [OF assms] .
  have "trace (cp_notify a i s) = trace (AC_updateContext ?ps ?s1)"
    using eq by simp
  then show ?thesis
    using AC_updateContext_shape [of ?ps ?s1]
    by (cases "ruleEvaluator (controller s)") (auto simp add: getRules_def getContext_def)
qed

lemma cp_notify_fires:
  assumes "None \<notin> set ((cpSubscription (controller s))[i := Some a])"
  shows "\<exists>evs. trace (cp_notify a i s) = trace s @ evs \<and>
           filter context_published evs = [ContextUpdated (cp_flat (cp_notify a i s))] \<and>
           filter trigger evs = [EvaluationTriggered] \<and>
           filter producer_event evs = [] \<and> filter rules_published evs = []"
    and "getContext (cp_notify a i s) = cp_flat (cp_notify a i s)"
    and "cp_full (cp_notify a i s)"
proof -
  let ?s1 = "s\<lparr>controller := (controller s)\<lparr>cpSubscription := (cpSubscription (controller s))[i := Some a]\<rparr>\<rparr>"
  let ?ps = "cp_flat (cp_notify a i s)"
  obtain evs where d: "list_all dispatch_event evs"
    and t: "trace (cp_notify a i s) =
       trace s @ ContextUpdated ?ps # EvaluationTriggered #
         (case ruleEvaluator (controller s) of
            None \<Rightarrow> Logged ''AUI: Evaluation could not be started. No RuleEvaluator set.''
          | Some ev \<Rightarrow> Evaluated (getRules s) ?ps) # evs"
    using cp_notify_fires_shape [OF assms] by blast
  have f: "filter context_published evs = []" "filter trigger evs = []"
    "filter producer_event evs = []" "filter rules_published evs = []"
    using d by (auto intro!: filter_dispatch_none elim: dispatch_event.elims)
  show "\<exists>evs. trace (cp_notify a i s) = trace s @ evs \<and>
           filter context_published evs = [ContextUpdated (cp_flat (cp_notify a i s))] \<and>
           filter trigger evs = [EvaluationTriggered] \<and>
           filter producer_event evs = [] \<and> filter rules_published evs = []"
    using t f by (auto split: option.splits)
  have "getContext (AC_updateContext ?ps ?s1) = ?ps"
    by (simp add: getContext_def)
  then show "getContext (cp_notify a i s) = cp_flat (cp_notify a i s)"
    using cp_notify_publishes [OF assms] by simp
  show "cp_full (cp_notify a i s)"
    using assms by (simp add: cp_full_def)
qed

lemmas cp_notify_full = cp_notify_fires [OF cp_full_update]

lemma cp_notify_appends:
  "\<exists>evs. trace (cp_notify a i s) = trace s @ evs \<and> filter producer_event evs = []"
proof (cases "None \<in> set ((cpSubscription (controller s))[i := Some a])")
  case True
  then show ?thesis by (simp add: cp_notify_not_full)
next
  case False
  then show ?thesis using cp_notify_fires(1) [of s i a] by blast
qed

lemma fold_cp_notify_appends:
  "\<exists>evs. trace (fold (cp_notify a) js s) = trace s @ evs \<and> filter producer_event evs = []"
proof (induction js arbitrary: s)
  case Nil
  then show ?case by simp
next
  case (Cons j js)
  obtain e1 where e1: "trace (cp_notify a j s) = trace s @ e1" "filter producer_event e1 = []"
    using cp_notify_appends by blast
  obtain e2 where e2: "trace (fold (cp_notify a) js (cp_notify a j s)) = trace (cp_notify a j s) @ e2"
      "filter producer_event e2 = []"
    using Cons.IH by blast
  show ?case using e1 e2 by (intro exI [of _ "e1 @ e2"]) simp
qed

lemma fold_cp_notify_frame [simp]:
  "ctx_arrays (fold (cp_notify a) js s) = ctx_arrays s"
  "rule_arrays (fold (cp_notify a) js s) = rule_arrays s"
  "contextProvider (fold (cp_notify a) js s) = contextProvider s"
  "ruleProvider (fold (cp_notify a) js s) = ruleProvider s"
  "contextProviders (controller (fold (cp_notify a) js s)) = contextProviders (controller s)"
  "ruleProviders (controller (fold (cp_notify a) js s)) = ruleProviders (controller s)"
  "rpSubscription (controller (fold (cp_notify a) js s)) = rpSubscription (controller s)"
  "ruleEvaluator (controller (fold (cp_notify a) js s)) = ruleEvaluator (controller s)"
  "acRules_S (controller (fold (cp_notify a) js s)) = acRules_S (controller s)"
  by (induction js arbitrary: s) simp_all

lemma fold_cp_notify_slots:
  "cpSubscription (controller (fold (cp_notify a) js s)) =
     fold (\<lambda>i vs. vs[i := Some a]) js (cpSubscription (controller s))"
  by (induction js arbitrary: s) simp_all

lemma fold_cp_notify_full:
  assumes "cp_full s"
  shows "cp_full (fold (cp_notify a) js s) \<and>
     (\<exists>evs. trace (fold (cp_notify a) js s) = trace s @ evs \<and>
        length (filter context_published evs) = length js \<and>
        length (filter trigger evs) = length js \<and>
        filter producer_event evs = [] \<and> filter rules_published evs = [] \<and>
        (js \<noteq> [] \<longrightarrow>
           last (filter context_published evs) = ContextUpdated (cp_flat (fold (cp_notify a) js s)) \<and>
           getContext (fold (cp_notify a) js s) = cp_flat (fold (cp_notify a) js s)))"
proof (induction js rule: rev_induct)
  case Nil
  show ?case using assms by simp
next
  case (snoc j js)
  let ?t = "fold (cp_notify a) js s"
  from snoc obtain e1 where full: "cp_full ?t" and e1: "trace ?t = trace s @ e1"
      "length (filter context_published e1) = length js"
      "length (filter trigger e1) = length js"
      "filter producer_event e1 = []" "filter rules_published e1 = []"
    by blast
  obtain e2 where e2: "trace (cp_notify a j ?t) = trace ?t @ e2"
      "filter context_published e2 = [ContextUpdated (cp_flat (cp_notify a j ?t))]"
      "filter trigger e2 = [EvaluationTriggered]"
      "filter producer_event e2 = []" "filter rules_published e2 = []"
    using cp_notify_full(1) [OF full] by blast
  have "trace (cp_notify a j ?t) = trace s @ (e1 @ e2)"
    using e1(1) e2(1) by simp
  moreover have "length (filter context_published (e1 @ e2)) = length (js @ [j])"
    "length (filter trigger (e1 @ e2)) = length (js @ [j])"
    "filter producer_event (e1 @ e2) = []" "filter rules_published (e1 @ e2) = []"
    "last (filter context_published (e1 @ e2)) = ContextUpdated (cp_flat (cp_notify a j ?t))"
    using e1 e2 by simp_all
  ultimately show ?case
    using cp_notify_full(2,3) [OF full, of a j] by (simp del: filter_append)
qed

lemma cp_joined_full: "cp_joined s \<Longrightarrow> cp_full s"
  by (auto simp add: cp_joined_def cp_full_def)

lemma cp_joined_flat: "cp_joined s \<Longrightarrow> cp_flat s = merged_context s"
  by (simp add: cp_joined_def cp_flat_def merged_context_def o_def)

lemma CP_updateContext_emits:
  "\<exists>evs. trace (CP_updateContext q s) = trace s @ ContextEmitted q (params_of q s) # evs \<and>
         filter producer_event evs = []"
  "ctx_arrays (CP_updateContext q s) = ctx_arrays s"
  "contextProvider (CP_updateContext q s) =
     (contextProvider s)(q := (contextProvider s q)\<lparr>contextParams_S := contextParams (contextProvider s q)\<rparr>)"
  using fold_cp_notify_appends
    [of "contextParams (contextProvider s q)" "cp_observers s q"
        "say (ContextEmitted q (ctx_arrays s (contextParams (contextProvider s q))))
           (s\<lparr>contextProvider := (contextProvider s)
                (q := (contextProvider s q)\<lparr>contextParams_S := contextParams (contextProvider s q)\<rparr>)\<rparr>)"]
  by (simp_all add: CP_updateContext_def Let_def params_of_def)

lemma CP_updateContext_joined:
  fixes q :: nat and s :: world
  assumes "cp_joined s"
  defines "s' \<equiv> CP_updateContext q s"
  shows "cp_joined s'"
    and "\<exists>evs. trace s' = trace s @ ContextEmitted q (params_of q s) # evs \<and>
           length (filter context_published evs) = count_list (contextProviders (controller s)) q \<and>
           length (filter trigger evs) = count_list (contextProviders (controller s)) q \<and>
           filter producer_event evs = [] \<and> filter rules_published evs = [] \<and>
           (q \<in> set (contextProviders (controller s)) \<longrightarrow>
              last (filter context_published evs) = ContextUpdated (merged_context s') \<and>
              getContext s' = merged_context s')"
    and "merged_context s' =
           concat (map (\<lambda>r. if r = q then params_of q s
                            else ctx_arrays s (contextParams_S (contextProvider s r)))
             (contextProviders (controller s)))"
    and "contextProviders (controller s') = contextProviders (controller s)"
    and "ctx_arrays s' = ctx_arrays s"
proof -
  let ?ps = "contextProviders (controller s)"
  let ?a = "contextParams (contextProvider s q)"
  let ?s1 = "say (ContextEmitted q (ctx_arrays s ?a))
               (s\<lparr>contextProvider := (contextProvider s)(q := (contextProvider s q)\<lparr>contextParams_S := ?a\<rparr>)\<rparr>)"
  let ?obs = "filter (\<lambda>i. ?ps ! i = q) [0..<length ?ps]"
  have len: "length (cpSubscription (controller s)) = length ?ps"
    using assms(1) by (simp add: cp_joined_def)
  have s': "s' = fold (cp_notify ?a) ?obs ?s1"
    by (simp add: s'_def CP_updateContext_def cp_observers_def Let_def len)
  have full1: "cp_full ?s1"
    using cp_joined_full [OF assms(1)] by (simp add: cp_full_def)
  show ps': "contextProviders (controller s') = ?ps" by (simp add: s')
  show arr': "ctx_arrays s' = ctx_arrays s" by (simp add: s')
  have cp': "contextProvider s' = (contextProvider s)(q := (contextProvider s q)\<lparr>contextParams_S := ?a\<rparr>)"
    by (simp add: s')
  have slots: "cpSubscription (controller s') =
      fold (\<lambda>i vs. vs[i := Some ?a]) ?obs (cpSubscription (controller s))"
    by (simp add: s' fold_cp_notify_slots)
  show joined': "cp_joined s'"
    unfolding cp_joined_def
  proof (rule nth_equalityI)
    show "length (cpSubscription (controller s')) =
        length (map (\<lambda>q. Some (contextParams_S (contextProvider s' q))) (contextProviders (controller s')))"
      by (simp add: slots ps' len)
  next
    fix j assume "j < length (cpSubscription (controller s'))"
    then have j: "j < length ?ps" by (simp add: slots len)
    then show "cpSubscription (controller s') ! j =
        map (\<lambda>q. Some (contextParams_S (contextProvider s' q))) (contextProviders (controller s')) ! j"
      using assms(1) by (simp add: slots ps' cp' nth_fold_update len cp_joined_def)
  qed
  show "merged_context s' =
           concat (map (\<lambda>r. if r = q then params_of q s
                            else ctx_arrays s (contextParams_S (contextProvider s r))) ?ps)"
    by (simp add: merged_context_def ps' arr' cp' params_of_def cong: if_cong)
      (rule arg_cong [where f = concat], rule map_cong, simp_all)
  have cnt: "length ?obs = count_list ?ps q" by (rule length_filter_indices)
  have ne: "q \<in> set ?ps \<Longrightarrow> ?obs \<noteq> []"
    using cnt count_list_0_iff [of ?ps q] by auto
  from fold_cp_notify_full [OF full1, of ?a ?obs]
  obtain evs where "trace s' = trace ?s1 @ evs"
      "length (filter context_published evs) = length ?obs"
      "length (filter trigger evs) = length ?obs"
      "filter producer_event evs = []" "filter rules_published evs = []"
      "?obs \<noteq> [] \<longrightarrow> last (filter context_published evs) = ContextUpdated (cp_flat s') \<and>
           getContext s' = cp_flat s'"
    unfolding s' by blast
  then show "\<exists>evs. trace s' = trace s @ ContextEmitted q (params_of q s) # evs \<and>
           length (filter context_published evs) = count_list ?ps q \<and>
           length (filter trigger evs) = count_list ?ps q \<and>
           filter producer_event evs = [] \<and> filter rules_published evs = [] \<and>
           (q \<in> set ?ps \<longrightarrow>
              last (filter context_published evs) = ContextUpdated (merged_context s') \<and>
              getContext s' = merged_context s')"
    using cnt ne cp_joined_flat [OF joined'] by (intro exI [of _ evs]) (simp add: params_of_def)
qed

lemma cp_register_prefix:
  assumes "cpSubscription (controller s1) = replicate n None" and "k < n"
  shows "fold (\<lambda>i t. cp_notify (contextParams_S (contextProvider t (ps ! i))) i t) [0..<k] s1 =
     s1\<lparr>controller := (controller s1)
          \<lparr>cpSubscription :=
             map (\<lambda>i. if i < k then Some (contextParams_S (contextProvider s1 (ps ! i))) else None)
               [0..<n]\<rparr>\<rparr>"
  using assms(2)
proof (induction k)
  case 0
  have "map (\<lambda>i. None) [0..<n] = cpSubscription (controller s1)"
    using assms(1) by (simp add: map_replicate_const)
  then show ?case by simp
next
  case (Suc k)
  let ?v = "\<lambda>i. contextParams_S (contextProvider s1 (ps ! i))"
  let ?F = "\<lambda>k. map (\<lambda>i. if i < k then Some (?v i) else None) [0..<n]"
  let ?t = "s1\<lparr>controller := (controller s1)\<lparr>cpSubscription := ?F k\<rparr>\<rparr>"
  have t: "fold (\<lambda>i t. cp_notify (contextParams_S (contextProvider t (ps ! i))) i t) [0..<k] s1 = ?t"
    using Suc by simp
  have upd: "(cpSubscription (controller ?t))[k := Some (?v k)] = ?F (Suc k)"
    using Suc.prems fill_step [of k n ?v] by simp
  have "?F (Suc k) ! Suc k = None" using Suc.prems by simp
  then have "None \<in> set (?F (Suc k))"
    using Suc.prems by (metis (no_types, lifting) length_map length_upt minus_nat.diff_0 nth_mem)
  then have "cp_notify (?v k) k ?t = ?t\<lparr>controller := (controller ?t)\<lparr>cpSubscription := ?F (Suc k)\<rparr>\<rparr>"
    using cp_notify_not_full [of ?t k "?v k"] upd by simp
  then show ?case using t by simp
qed

lemma registerContextProvider_joined:
  fixes q :: nat and s :: world
  defines "s' \<equiv> registerContextProvider q s"
  shows "cp_joined s'"
    and "contextProviders (controller s') = contextProviders (controller s) @ [q]"
    and "\<exists>evs. trace s' = trace s @ evs \<and>
           filter context_published evs = [ContextUpdated (merged_context s')] \<and>
           filter trigger evs = [EvaluationTriggered] \<and>
           filter producer_event evs = [] \<and> filter rules_published evs = []"
    and "getContext s' = merged_context s'"
    and "merged_context s' = merged_context s @ ctx_arrays s (contextParams_S (contextProvider s q))"
    and "ctx_arrays s' = ctx_arrays s"
    and "contextProvider s' = contextProvider s"
proof -
  let ?ps = "contextProviders (controller s) @ [q]"
  let ?m = "length (contextProviders (controller s))"
  let ?s1 = "s\<lparr>controller := (controller s)
                  \<lparr>contextProviders := ?ps, cpSubscription := replicate (length ?ps) None\<rparr>\<rparr>"
  let ?v = "\<lambda>i. contextParams_S (contextProvider s (?ps ! i))"
  let ?F = "\<lambda>k. map (\<lambda>i. if i < k then Some (?v i) else None) [0..<Suc ?m]"
  let ?t = "?s1\<lparr>controller := (controller ?s1)\<lparr>cpSubscription := ?F ?m\<rparr>\<rparr>"
  have pre: "fold (\<lambda>i t. cp_notify (contextParams_S (contextProvider t (?ps ! i))) i t) [0..<?m] ?s1 = ?t"
    using cp_register_prefix [of ?s1 "Suc ?m" ?m ?ps] by simp
  have s': "s' = cp_notify (?v ?m) ?m ?t"
    using pre by (simp add: s'_def registerContextProvider_def Let_def)
  have upd: "(cpSubscription (controller ?t))[?m := Some (?v ?m)] = ?F (Suc ?m)"
    using fill_step [of ?m "Suc ?m" ?v] by simp
  have all: "?F (Suc ?m) = map (\<lambda>r. Some (contextParams_S (contextProvider s r))) ?ps"
    by (rule nth_equalityI) (auto simp del: upt_Suc simp add: nth_append less_Suc_eq)
  have fires: "None \<notin> set ((cpSubscription (controller ?t))[?m := Some (?v ?m)])"
    unfolding upd all by auto
  show ps': "contextProviders (controller s') = ?ps" by (simp add: s')
  show arr': "ctx_arrays s' = ctx_arrays s" by (simp add: s')
  show cp': "contextProvider s' = contextProvider s" by (simp add: s')
  have slots: "cpSubscription (controller s') = map (\<lambda>r. Some (contextParams_S (contextProvider s r))) ?ps"
    using upd all by (simp add: s')
  show joined': "cp_joined s'"
    by (simp add: cp_joined_def slots ps' cp')
  show "merged_context s' = merged_context s @ ctx_arrays s (contextParams_S (contextProvider s q))"
    by (simp add: merged_context_def ps' arr' cp')
  show "getContext s' = merged_context s'"
    using cp_notify_fires(2) [OF fires] cp_joined_flat [OF joined'] by (simp add: s')
  show "\<exists>evs. trace s' = trace s @ evs \<and>
           filter context_published evs = [ContextUpdated (merged_context s')] \<and>
           filter trigger evs = [EvaluationTriggered] \<and>
           filter producer_event evs = [] \<and> filter rules_published evs = []"
    using cp_notify_fires(1) [OF fires] cp_joined_flat [OF joined'] by (simp add: s')
qed

subsection \<open>The join on the rule side\<close>

lemma rp_notify_frame [simp]:
  "rule_arrays (rp_notify a i s) = rule_arrays s"
  "ctx_arrays (rp_notify a i s) = ctx_arrays s"
  "ruleProvider (rp_notify a i s) = ruleProvider s"
  "contextProvider (rp_notify a i s) = contextProvider s"
  "ruleProviders (controller (rp_notify a i s)) = ruleProviders (controller s)"
  "contextProviders (controller (rp_notify a i s)) = contextProviders (controller s)"
  "rpSubscription (controller (rp_notify a i s)) = (rpSubscription (controller s))[i := Some a]"
  "cpSubscription (controller (rp_notify a i s)) = cpSubscription (controller s)"
  "ruleEvaluator (controller (rp_notify a i s)) = ruleEvaluator (controller s)"
  "context_S (controller (rp_notify a i s)) = context_S (controller s)"
  by (simp_all add: rp_notify_def Let_def split: option.splits)

lemma rp_notify_not_full:
  "None \<in> set ((rpSubscription (controller s))[i := Some a]) \<Longrightarrow>
   rp_notify a i s =
     s\<lparr>controller := (controller s)\<lparr>rpSubscription := (rpSubscription (controller s))[i := Some a]\<rparr>\<rparr>"
  by (simp add: rp_notify_def Let_def those_None_iff [symmetric])

lemma rp_notify_publishes:
  assumes "None \<notin> set ((rpSubscription (controller s))[i := Some a])"
  shows "rp_notify a i s =
     AC_updateRules (rp_flat (rp_notify a i s))
       (s\<lparr>controller := (controller s)\<lparr>rpSubscription := (rpSubscription (controller s))[i := Some a]\<rparr>\<rparr>)"
proof -
  let ?vals = "(rpSubscription (controller s))[i := Some a]"
  from assms obtain vs where vs: "those ?vals = Some vs"
    using those_None_iff [of ?vals] by (cases "those ?vals") auto
  have "concat (map (rule_arrays s) vs) = rp_flat (rp_notify a i s)"
    using those_Some_flat [OF vs, of "rule_arrays s"]
    by (simp add: rp_flat_def cong: option.case_cong)
  then show ?thesis using vs by (simp add: rp_notify_def Let_def)
qed

lemma rp_full_update: "rp_full s \<Longrightarrow> None \<notin> set ((rpSubscription (controller s))[i := Some a])"
  using set_update_subset_insert [of "rpSubscription (controller s)" i "Some a"]
  by (auto simp add: rp_full_def)

lemma rp_notify_fires_shape:
  assumes "None \<notin> set ((rpSubscription (controller s))[i := Some a])"
  shows "\<exists>evs. list_all dispatch_event evs \<and>
     trace (rp_notify a i s) =
       trace s @ RulesUpdated (rp_flat (rp_notify a i s)) # EvaluationTriggered #
         (case ruleEvaluator (controller s) of
            None \<Rightarrow> Logged ''AUI: Evaluation could not be started. No RuleEvaluator set.''
          | Some ev \<Rightarrow> Evaluated (rp_flat (rp_notify a i s)) (getContext s)) # evs"
proof -
  let ?s1 = "s\<lparr>controller := (controller s)\<lparr>rpSubscription := (rpSubscription (controller s))[i := Some a]\<rparr>\<rparr>"
  let ?ps = "rp_flat (rp_notify a i s)"
  have eq: "rp_notify a i s = AC_updateRules ?ps ?s1"
    using rp_notify_publishes [OF assms] .
  have "trace (rp_notify a i s) = trace (AC_updateRules ?ps ?s1)"
    using eq by simp
  then show ?thesis
    using AC_updateRules_shape [of ?ps ?s1]
    by (cases "ruleEvaluator (controller s)") (auto simp add: getContext_def getRules_def)
qed

lemma rp_notify_fires:
  assumes "None \<notin> set ((rpSubscription (controller s))[i := Some a])"
  shows "\<exists>evs. trace (rp_notify a i s) = trace s @ evs \<and>
           filter rules_published evs = [RulesUpdated (rp_flat (rp_notify a i s))] \<and>
           filter trigger evs = [EvaluationTriggered] \<and>
           filter producer_event evs = [] \<and> filter context_published evs = []"
    and "getRules (rp_notify a i s) = rp_flat (rp_notify a i s)"
    and "rp_full (rp_notify a i s)"
proof -
  let ?s1 = "s\<lparr>controller := (controller s)\<lparr>rpSubscription := (rpSubscription (controller s))[i := Some a]\<rparr>\<rparr>"
  let ?ps = "rp_flat (rp_notify a i s)"
  obtain evs where d: "list_all dispatch_event evs"
    and t: "trace (rp_notify a i s) =
       trace s @ RulesUpdated ?ps # EvaluationTriggered #
         (case ruleEvaluator (controller s) of
            None \<Rightarrow> Logged ''AUI: Evaluation could not be started. No RuleEvaluator set.''
          | Some ev \<Rightarrow> Evaluated ?ps (getContext s)) # evs"
    using rp_notify_fires_shape [OF assms] by blast
  have f: "filter rules_published evs = []" "filter trigger evs = []"
    "filter producer_event evs = []" "filter context_published evs = []"
    using d by (auto intro!: filter_dispatch_none elim: dispatch_event.elims)
  show "\<exists>evs. trace (rp_notify a i s) = trace s @ evs \<and>
           filter rules_published evs = [RulesUpdated (rp_flat (rp_notify a i s))] \<and>
           filter trigger evs = [EvaluationTriggered] \<and>
           filter producer_event evs = [] \<and> filter context_published evs = []"
    using t f by (auto split: option.splits)
  have "getRules (AC_updateRules ?ps ?s1) = ?ps"
    by (simp add: getRules_def)
  then show "getRules (rp_notify a i s) = rp_flat (rp_notify a i s)"
    using rp_notify_publishes [OF assms] by simp
  show "rp_full (rp_notify a i s)"
    using assms by (simp add: rp_full_def)
qed

lemmas rp_notify_full = rp_notify_fires [OF rp_full_update]

lemma rp_notify_appends:
  "\<exists>evs. trace (rp_notify a i s) = trace s @ evs \<and> filter producer_event evs = []"
proof (cases "None \<in> set ((rpSubscription (controller s))[i := Some a])")
  case True
  then show ?thesis by (simp add: rp_notify_not_full)
next
  case False
  then show ?thesis using rp_notify_fires(1) [of s i a] by blast
qed

lemma fold_rp_notify_appends:
  "\<exists>evs. trace (fold (rp_notify a) js s) = trace s @ evs \<and> filter producer_event evs = []"
proof (induction js arbitrary: s)
  case Nil
  then show ?case by simp
next
  case (Cons j js)
  obtain e1 where e1: "trace (rp_notify a j s) = trace s @ e1" "filter producer_event e1 = []"
    using rp_notify_appends by blast
  obtain e2 where e2: "trace (fold (rp_notify a) js (rp_notify a j s)) = trace (rp_notify a j s) @ e2"
      "filter producer_event e2 = []"
    using Cons.IH by blast
  show ?case using e1 e2 by (intro exI [of _ "e1 @ e2"]) simp
qed

lemma fold_rp_notify_frame [simp]:
  "rule_arrays (fold (rp_notify a) js s) = rule_arrays s"
  "ctx_arrays (fold (rp_notify a) js s) = ctx_arrays s"
  "ruleProvider (fold (rp_notify a) js s) = ruleProvider s"
  "contextProvider (fold (rp_notify a) js s) = contextProvider s"
  "ruleProviders (controller (fold (rp_notify a) js s)) = ruleProviders (controller s)"
  "contextProviders (controller (fold (rp_notify a) js s)) = contextProviders (controller s)"
  "cpSubscription (controller (fold (rp_notify a) js s)) = cpSubscription (controller s)"
  "ruleEvaluator (controller (fold (rp_notify a) js s)) = ruleEvaluator (controller s)"
  "context_S (controller (fold (rp_notify a) js s)) = context_S (controller s)"
  by (induction js arbitrary: s) simp_all

lemma fold_rp_notify_slots:
  "rpSubscription (controller (fold (rp_notify a) js s)) =
     fold (\<lambda>i vs. vs[i := Some a]) js (rpSubscription (controller s))"
  by (induction js arbitrary: s) simp_all

lemma fold_rp_notify_full:
  assumes "rp_full s"
  shows "rp_full (fold (rp_notify a) js s) \<and>
     (\<exists>evs. trace (fold (rp_notify a) js s) = trace s @ evs \<and>
        length (filter rules_published evs) = length js \<and>
        length (filter trigger evs) = length js \<and>
        filter producer_event evs = [] \<and> filter context_published evs = [] \<and>
        (js \<noteq> [] \<longrightarrow>
           last (filter rules_published evs) = RulesUpdated (rp_flat (fold (rp_notify a) js s)) \<and>
           getRules (fold (rp_notify a) js s) = rp_flat (fold (rp_notify a) js s)))"
proof (induction js rule: rev_induct)
  case Nil
  show ?case using assms by simp
next
  case (snoc j js)
  let ?t = "fold (rp_notify a) js s"
  from snoc obtain e1 where full: "rp_full ?t" and e1: "trace ?t = trace s @ e1"
      "length (filter rules_published e1) = length js"
      "length (filter trigger e1) = length js"
      "filter producer_event e1 = []" "filter context_published e1 = []"
    by blast
  obtain e2 where e2: "trace (rp_notify a j ?t) = trace ?t @ e2"
      "filter rules_published e2 = [RulesUpdated (rp_flat (rp_notify a j ?t))]"
      "filter trigger e2 = [EvaluationTriggered]"
      "filter producer_event e2 = []" "filter context_published e2 = []"
    using rp_notify_full(1) [OF full] by blast
  have "trace (rp_notify a j ?t) = trace s @ (e1 @ e2)"
    using e1(1) e2(1) by simp
  moreover have "length (filter rules_published (e1 @ e2)) = length (js @ [j])"
    "length (filter trigger (e1 @ e2)) = length (js @ [j])"
    "filter producer_event (e1 @ e2) = []" "filter context_published (e1 @ e2) = []"
    "last (filter rules_published (e1 @ e2)) = RulesUpdated (rp_flat (rp_notify a j ?t))"
    using e1 e2 by simp_all
  ultimately show ?case
    using rp_notify_full(2,3) [OF full, of a j] by (simp del: filter_append)
qed

lemma rp_joined_full: "rp_joined s \<Longrightarrow> rp_full s"
  by (auto simp add: rp_joined_def rp_full_def)

lemma rp_joined_flat: "rp_joined s \<Longrightarrow> rp_flat s = merged_rules s"
  by (simp add: rp_joined_def rp_flat_def merged_rules_def o_def)

lemma RP_updateRules_emits:
  "\<exists>evs. trace (RP_updateRules q s) = trace s @ RulesEmitted q (rules_of q s) # evs \<and>
         filter producer_event evs = []"
  "rule_arrays (RP_updateRules q s) = rule_arrays s"
  "ruleProvider (RP_updateRules q s) =
     (ruleProvider s)(q := (ruleProvider s q)\<lparr>rules_S := rules (ruleProvider s q)\<rparr>)"
  using fold_rp_notify_appends
    [of "rules (ruleProvider s q)" "rp_observers s q"
        "say (RulesEmitted q (rule_arrays s (rules (ruleProvider s q))))
           (s\<lparr>ruleProvider := (ruleProvider s)
                (q := (ruleProvider s q)\<lparr>rules_S := rules (ruleProvider s q)\<rparr>)\<rparr>)"]
  by (simp_all add: RP_updateRules_def Let_def rules_of_def)

lemma RP_updateRules_joined:
  fixes q :: nat and s :: world
  assumes "rp_joined s"
  defines "s' \<equiv> RP_updateRules q s"
  shows "rp_joined s'"
    and "\<exists>evs. trace s' = trace s @ RulesEmitted q (rules_of q s) # evs \<and>
           length (filter rules_published evs) = count_list (ruleProviders (controller s)) q \<and>
           length (filter trigger evs) = count_list (ruleProviders (controller s)) q \<and>
           filter producer_event evs = [] \<and> filter context_published evs = [] \<and>
           (q \<in> set (ruleProviders (controller s)) \<longrightarrow>
              last (filter rules_published evs) = RulesUpdated (merged_rules s') \<and>
              getRules s' = merged_rules s')"
    and "merged_rules s' =
           concat (map (\<lambda>r. if r = q then rules_of q s
                            else rule_arrays s (rules_S (ruleProvider s r)))
             (ruleProviders (controller s)))"
    and "ruleProviders (controller s') = ruleProviders (controller s)"
    and "rule_arrays s' = rule_arrays s"
proof -
  let ?ps = "ruleProviders (controller s)"
  let ?a = "rules (ruleProvider s q)"
  let ?s1 = "say (RulesEmitted q (rule_arrays s ?a))
               (s\<lparr>ruleProvider := (ruleProvider s)(q := (ruleProvider s q)\<lparr>rules_S := ?a\<rparr>)\<rparr>)"
  let ?obs = "filter (\<lambda>i. ?ps ! i = q) [0..<length ?ps]"
  have len: "length (rpSubscription (controller s)) = length ?ps"
    using assms(1) by (simp add: rp_joined_def)
  have s': "s' = fold (rp_notify ?a) ?obs ?s1"
    by (simp add: s'_def RP_updateRules_def rp_observers_def Let_def len)
  have full1: "rp_full ?s1"
    using rp_joined_full [OF assms(1)] by (simp add: rp_full_def)
  show ps': "ruleProviders (controller s') = ?ps" by (simp add: s')
  show arr': "rule_arrays s' = rule_arrays s" by (simp add: s')
  have cp': "ruleProvider s' = (ruleProvider s)(q := (ruleProvider s q)\<lparr>rules_S := ?a\<rparr>)"
    by (simp add: s')
  have slots: "rpSubscription (controller s') =
      fold (\<lambda>i vs. vs[i := Some ?a]) ?obs (rpSubscription (controller s))"
    by (simp add: s' fold_rp_notify_slots)
  show joined': "rp_joined s'"
    unfolding rp_joined_def
  proof (rule nth_equalityI)
    show "length (rpSubscription (controller s')) =
        length (map (\<lambda>q. Some (rules_S (ruleProvider s' q))) (ruleProviders (controller s')))"
      by (simp add: slots ps' len)
  next
    fix j assume "j < length (rpSubscription (controller s'))"
    then have j: "j < length ?ps" by (simp add: slots len)
    then show "rpSubscription (controller s') ! j =
        map (\<lambda>q. Some (rules_S (ruleProvider s' q))) (ruleProviders (controller s')) ! j"
      using assms(1) by (simp add: slots ps' cp' nth_fold_update len rp_joined_def)
  qed
  show "merged_rules s' =
           concat (map (\<lambda>r. if r = q then rules_of q s
                            else rule_arrays s (rules_S (ruleProvider s r))) ?ps)"
    by (simp add: merged_rules_def ps' arr' cp' rules_of_def cong: if_cong)
      (rule arg_cong [where f = concat], rule map_cong, simp_all)
  have cnt: "length ?obs = count_list ?ps q" by (rule length_filter_indices)
  have ne: "q \<in> set ?ps \<Longrightarrow> ?obs \<noteq> []"
    using cnt count_list_0_iff [of ?ps q] by auto
  from fold_rp_notify_full [OF full1, of ?a ?obs]
  obtain evs where "trace s' = trace ?s1 @ evs"
      "length (filter rules_published evs) = length ?obs"
      "length (filter trigger evs) = length ?obs"
      "filter producer_event evs = []" "filter context_published evs = []"
      "?obs \<noteq> [] \<longrightarrow> last (filter rules_published evs) = RulesUpdated (rp_flat s') \<and>
           getRules s' = rp_flat s'"
    unfolding s' by blast
  then show "\<exists>evs. trace s' = trace s @ RulesEmitted q (rules_of q s) # evs \<and>
           length (filter rules_published evs) = count_list ?ps q \<and>
           length (filter trigger evs) = count_list ?ps q \<and>
           filter producer_event evs = [] \<and> filter context_published evs = [] \<and>
           (q \<in> set ?ps \<longrightarrow>
              last (filter rules_published evs) = RulesUpdated (merged_rules s') \<and>
              getRules s' = merged_rules s')"
    using cnt ne rp_joined_flat [OF joined'] by (intro exI [of _ evs]) (simp add: rules_of_def)
qed

lemma rp_register_prefix:
  assumes "rpSubscription (controller s1) = replicate n None" and "k < n"
  shows "fold (\<lambda>i t. rp_notify (rules_S (ruleProvider t (ps ! i))) i t) [0..<k] s1 =
     s1\<lparr>controller := (controller s1)
          \<lparr>rpSubscription :=
             map (\<lambda>i. if i < k then Some (rules_S (ruleProvider s1 (ps ! i))) else None)
               [0..<n]\<rparr>\<rparr>"
  using assms(2)
proof (induction k)
  case 0
  have "map (\<lambda>i. None) [0..<n] = rpSubscription (controller s1)"
    using assms(1) by (simp add: map_replicate_const)
  then show ?case by simp
next
  case (Suc k)
  let ?v = "\<lambda>i. rules_S (ruleProvider s1 (ps ! i))"
  let ?F = "\<lambda>k. map (\<lambda>i. if i < k then Some (?v i) else None) [0..<n]"
  let ?t = "s1\<lparr>controller := (controller s1)\<lparr>rpSubscription := ?F k\<rparr>\<rparr>"
  have t: "fold (\<lambda>i t. rp_notify (rules_S (ruleProvider t (ps ! i))) i t) [0..<k] s1 = ?t"
    using Suc by simp
  have upd: "(rpSubscription (controller ?t))[k := Some (?v k)] = ?F (Suc k)"
    using Suc.prems fill_step [of k n ?v] by simp
  have "?F (Suc k) ! Suc k = None" using Suc.prems by simp
  then have "None \<in> set (?F (Suc k))"
    using Suc.prems by (metis (no_types, lifting) length_map length_upt minus_nat.diff_0 nth_mem)
  then have "rp_notify (?v k) k ?t = ?t\<lparr>controller := (controller ?t)\<lparr>rpSubscription := ?F (Suc k)\<rparr>\<rparr>"
    using rp_notify_not_full [of ?t k "?v k"] upd by simp
  then show ?case using t by simp
qed

lemma registerRuleProvider_joined:
  fixes q :: nat and s :: world
  defines "s' \<equiv> registerRuleProvider q s"
  shows "rp_joined s'"
    and "ruleProviders (controller s') = ruleProviders (controller s) @ [q]"
    and "\<exists>evs. trace s' = trace s @ evs \<and>
           filter rules_published evs = [RulesUpdated (merged_rules s')] \<and>
           filter trigger evs = [EvaluationTriggered] \<and>
           filter producer_event evs = [] \<and> filter context_published evs = []"
    and "getRules s' = merged_rules s'"
    and "merged_rules s' = merged_rules s @ rule_arrays s (rules_S (ruleProvider s q))"
    and "rule_arrays s' = rule_arrays s"
    and "ruleProvider s' = ruleProvider s"
proof -
  let ?ps = "ruleProviders (controller s) @ [q]"
  let ?m = "length (ruleProviders (controller s))"
  let ?s1 = "s\<lparr>controller := (controller s)
                  \<lparr>ruleProviders := ?ps, rpSubscription := replicate (length ?ps) None\<rparr>\<rparr>"
  let ?v = "\<lambda>i. rules_S (ruleProvider s (?ps ! i))"
  let ?F = "\<lambda>k. map (\<lambda>i. if i < k then Some (?v i) else None) [0..<Suc ?m]"
  let ?t = "?s1\<lparr>controller := (controller ?s1)\<lparr>rpSubscription := ?F ?m\<rparr>\<rparr>"
  have pre: "fold (\<lambda>i t. rp_notify (rules_S (ruleProvider t (?ps ! i))) i t) [0..<?m] ?s1 = ?t"
    using rp_register_prefix [of ?s1 "Suc ?m" ?m ?ps] by simp
  have s': "s' = rp_notify (?v ?m) ?m ?t"
    using pre by (simp add: s'_def registerRuleProvider_def Let_def)
  have upd: "(rpSubscription (controller ?t))[?m := Some (?v ?m)] = ?F (Suc ?m)"
    using fill_step [of ?m "Suc ?m" ?v] by simp
  have all: "?F (Suc ?m) = map (\<lambda>r. Some (rules_S (ruleProvider s r))) ?ps"
    by (rule nth_equalityI) (auto simp del: upt_Suc simp add: nth_append less_Suc_eq)
  have fires: "None \<notin> set ((rpSubscription (controller ?t))[?m := Some (?v ?m)])"
    unfolding upd all by auto
  show ps': "ruleProviders (controller s') = ?ps" by (simp add: s')
  show arr': "rule_arrays s' = rule_arrays s" by (simp add: s')
  show cp': "ruleProvider s' = ruleProvider s" by (simp add: s')
  have slots: "rpSubscription (controller s') = map (\<lambda>r. Some (rules_S (ruleProvider s r))) ?ps"
    using upd all by (simp add: s')
  show joined': "rp_joined s'"
    by (simp add: rp_joined_def slots ps' cp')
  show "merged_rules s' = merged_rules s @ rule_arrays s (rules_S (ruleProvider s q))"
    by (simp add: merged_rules_def ps' arr' cp')
  show "getRules s' = merged_rules s'"
    using rp_notify_fires(2) [OF fires] rp_joined_flat [OF joined'] by (simp add: s')
  show "\<exists>evs. trace s' = trace s @ evs \<and>
           filter rules_published evs = [RulesUpdated (merged_rules s')] \<and>
           filter trigger evs = [EvaluationTriggered] \<and>
           filter producer_event evs = [] \<and> filter context_published evs = []"
    using rp_notify_fires(1) [OF fires] rp_joined_flat [OF joined'] by (simp add: s')
qed

subsection \<open>The added rule reaches every rule set the controller publishes\<close>

lemma rp_flat_contains:
  "Some a \<in> set (rpSubscription (controller s)) \<Longrightarrow> set (rule_arrays s a) \<subseteq> set (rp_flat s)"
  by (force simp add: rp_flat_def)

lemma rp_notify_seen:
  assumes "rp_full s" and "i < length (rpSubscription (controller s))"
    and "r \<in> set (rule_arrays s a)"
  shows "\<exists>evs. trace (rp_notify a i s) = trace s @ evs \<and> list_all (rules_seen r) evs"
proof -
  let ?s' = "rp_notify a i s"
  have fires: "None \<notin> set ((rpSubscription (controller s))[i := Some a])"
    using assms(1) by (rule rp_full_update)
  have "Some a \<in> set (rpSubscription (controller ?s'))"
    using assms(2) by (simp add: set_update_memI)
  then have r: "r \<in> set (rp_flat ?s')"
    using rp_flat_contains [of a ?s'] assms(3) by auto
  obtain evs where d: "list_all dispatch_event evs"
    and t: "trace ?s' =
       trace s @ RulesUpdated (rp_flat ?s') # EvaluationTriggered #
         (case ruleEvaluator (controller s) of
            None \<Rightarrow> Logged ''AUI: Evaluation could not be started. No RuleEvaluator set.''
          | Some ev \<Rightarrow> Evaluated (rp_flat ?s') (getContext s)) # evs"
    using rp_notify_fires_shape [OF fires] by blast
  have "list_all (rules_seen r) evs"
    using d by (induction evs) (auto elim: dispatch_event.elims)
  then show ?thesis
    using t r by (cases "ruleEvaluator (controller s)") simp_all
qed

lemma fold_rp_notify_seen:
  assumes "rp_full s" and "\<forall>j\<in>set js. j < length (rpSubscription (controller s))"
    and "r \<in> set (rule_arrays s a)"
  shows "\<exists>evs. trace (fold (rp_notify a) js s) = trace s @ evs \<and> list_all (rules_seen r) evs"
  using assms
proof (induction js arbitrary: s)
  case Nil
  then show ?case by simp
next
  case (Cons j js)
  let ?t = "rp_notify a j s"
  obtain e1 where e1: "trace ?t = trace s @ e1" "list_all (rules_seen r) e1"
    using rp_notify_seen [of s j r a] Cons.prems by auto
  have "rp_full ?t" using rp_notify_full(3) [OF Cons.prems(1)] .
  moreover have "\<forall>i\<in>set js. i < length (rpSubscription (controller ?t))"
    using Cons.prems(2) by simp
  moreover have "r \<in> set (rule_arrays ?t a)" using Cons.prems(3) by simp
  ultimately obtain e2 where e2: "trace (fold (rp_notify a) js ?t) = trace ?t @ e2"
      "list_all (rules_seen r) e2"
    using Cons.IH by blast
  show ?case using e1 e2 by (intro exI [of _ "e1 @ e2"]) simp
qed

subsection \<open>The mutators of a context provider\<close>

lemma addContextParam_simps:
  "params_of q (addContextParam q p s) = params_of q s @ [p]"
  "trace (addContextParam q p s) = trace s"
  "controller (addContextParam q p s) = controller s"
  "contextProvider (addContextParam q p s) = contextProvider s"
  "widgets (addContextParam q p s) = widgets s"
  by (simp_all add: addContextParam_def params_of_def truthy_def Let_def)

lemma removeContextParam_simps:
  "params_of q (removeContextParam q k s) = filter (\<lambda>param. key param \<noteq> k) (params_of q s)"
  "trace (removeContextParam q k s) = trace s"
  "controller (removeContextParam q k s) = controller s"
  "contextParams_S (contextProvider (removeContextParam q k s) r) = contextParams_S (contextProvider s r)"
  "widgets (removeContextParam q k s) = widgets s"
  by (simp_all add: removeContextParam_def params_of_def Let_def)

lemma modifyContextParam_found:
  assumes "find (\<lambda>param. key param = k) (params_of q s) = Some old"
  shows "params_of q (modifyContextParam q k v s) =
           filter (\<lambda>param. key param \<noteq> k) (params_of q s) @ [old\<lparr>val := v\<rparr>]"
    and "trace (modifyContextParam q k v s) = trace s"
    and "controller (modifyContextParam q k v s) = controller s"
    and "contextParams_S (contextProvider (modifyContextParam q k v s) r) =
           contextParams_S (contextProvider s r)"
  using assms
  by (simp_all add: modifyContextParam_def getContextParam_def addContextParam_simps
      removeContextParam_simps)

lemma modifyContextParam_missing:
  "k \<notin> key ` set (params_of q s) \<Longrightarrow> modifyContextParam q k v s = s"
proof -
  assume "k \<notin> key ` set (params_of q s)"
  then have "find (\<lambda>param. key param = k) (params_of q s) = None"
    by (auto simp add: find_None_iff)
  then show ?thesis by (simp add: modifyContextParam_def getContextParam_def)
qed

lemma cp_joined_mutators:
  "cp_joined (addContextParam q p s) = cp_joined s"
  "cp_joined (removeContextParam q k s) = cp_joined s"
  "cp_joined (modifyContextParam q k v s) = cp_joined s"
  by (simp_all add: cp_joined_def addContextParam_simps removeContextParam_simps
      modifyContextParam_def getContextParam_def split: option.splits)

subsection \<open>The filter of a widget on an action that has a scope\<close>

lemma filter_present_scope:
  "scope a = Some sc \<Longrightarrow>
   setupAdaptivity_filter w a =
     Inr (target a = widget_name w \<and> (sc = [] \<or> namespace w \<in> set sc))"
  by (simp add: setupAdaptivity_filter_def)

lemma filter_absent_scope:
  "scope a = None \<Longrightarrow>
   setupAdaptivity_filter w a =
     (if target a = widget_name w
      then Inl (TypeError ''Cannot read property length of undefined'') else Inr False)"
  by (simp add: setupAdaptivity_filter_def)

subsection \<open>Both joins are in step in every reachable state\<close>

lemma joined_cross_notify:
  "cp_joined (rp_notify a i s) = cp_joined s"
  "rp_joined (cp_notify a i s) = rp_joined s"
  by (simp_all add: cp_joined_def rp_joined_def)

lemma joined_cross_emit:
  "cp_joined (RP_updateRules q s) = cp_joined s"
  "rp_joined (CP_updateContext q s) = rp_joined s"
proof -
  show "cp_joined (RP_updateRules q s) = cp_joined s"
    unfolding RP_updateRules_def Let_def
    by (simp add: fold_frame [where g = cp_joined] joined_cross_notify) (simp add: cp_joined_def)
  show "rp_joined (CP_updateContext q s) = rp_joined s"
    unfolding CP_updateContext_def Let_def
    by (simp add: fold_frame [where g = rp_joined] joined_cross_notify) (simp add: rp_joined_def)
qed

lemma joined_cross_register:
  "cp_joined (registerRuleProvider q s) = cp_joined s"
  "rp_joined (registerContextProvider q s) = rp_joined s"
proof -
  show "cp_joined (registerRuleProvider q s) = cp_joined s"
    unfolding registerRuleProvider_def Let_def
    by (simp add: fold_frame [where g = cp_joined] joined_cross_notify) (simp add: cp_joined_def)
  show "rp_joined (registerContextProvider q s) = rp_joined s"
    unfolding registerContextProvider_def Let_def
    by (simp add: fold_frame [where g = rp_joined] joined_cross_notify) (simp add: rp_joined_def)
qed

lemma joined_rule_mutators:
  "cp_joined (addRule q r s) = cp_joined s"
  "cp_joined (removeRule q nm s) = cp_joined s"
  "rp_joined s \<Longrightarrow> rp_joined (addRule q r s)"
  "rp_joined s \<Longrightarrow> rp_joined (removeRule q nm s)"
proof -
  show "cp_joined (addRule q r s) = cp_joined s"
    by (simp add: addRule_def Let_def joined_cross_emit) (simp add: cp_joined_def)
  show "cp_joined (removeRule q nm s) = cp_joined s"
    by (simp add: removeRule_def Let_def joined_cross_emit) (simp add: cp_joined_def)
  show "rp_joined (addRule q r s)" if "rp_joined s"
    unfolding addRule_def Let_def
    by (rule RP_updateRules_joined(1)) (use that in \<open>simp add: rp_joined_def\<close>)
  show "rp_joined (removeRule q nm s)" if "rp_joined s"
    unfolding removeRule_def Let_def
    by (rule RP_updateRules_joined(1)) (use that in \<open>simp add: rp_joined_def\<close>)
qed

lemma rp_joined_context_mutators:
  "rp_joined (addContextParam q p s) = rp_joined s"
  "rp_joined (removeContextParam q k s) = rp_joined s"
  "rp_joined (modifyContextParam q k v s) = rp_joined s"
  by (simp_all add: rp_joined_def addContextParam_def removeContextParam_def truthy_def
      modifyContextParam_def Let_def split: option.splits)

lemma joined_constructors:
  "q \<notin> set (contextProviders (controller s)) \<Longrightarrow> cp_joined (ContextProvider_new q s) = cp_joined s"
  "rp_joined (ContextProvider_new q s) = rp_joined s"
  "q \<notin> set (ruleProviders (controller s)) \<Longrightarrow> rp_joined (RuleProvider_new q s) = rp_joined s"
  "cp_joined (RuleProvider_new q s) = cp_joined s"
proof -
  show "cp_joined (ContextProvider_new q s) = cp_joined s"
    if "q \<notin> set (contextProviders (controller s))"
  proof -
    have c: "controller (ContextProvider_new q s) = controller s"
      by (simp add: ContextProvider_new_def Let_def)
    have eq: "map (\<lambda>r. Some (contextParams_S (contextProvider (ContextProvider_new q s) r)))
            (contextProviders (controller s)) =
          map (\<lambda>r. Some (contextParams_S (contextProvider s r))) (contextProviders (controller s))"
      using that by (intro map_cong) (auto simp add: ContextProvider_new_def Let_def)
    show ?thesis unfolding cp_joined_def c eq by (rule refl)
  qed
  show "rp_joined (RuleProvider_new q s) = rp_joined s"
    if "q \<notin> set (ruleProviders (controller s))"
  proof -
    have c: "controller (RuleProvider_new q s) = controller s"
      by (simp add: RuleProvider_new_def Let_def)
    have eq: "map (\<lambda>r. Some (rules_S (ruleProvider (RuleProvider_new q s) r)))
            (ruleProviders (controller s)) =
          map (\<lambda>r. Some (rules_S (ruleProvider s r))) (ruleProviders (controller s))"
      using that by (intro map_cong) (auto simp add: RuleProvider_new_def Let_def)
    show ?thesis unfolding rp_joined_def c eq by (rule refl)
  qed
  show "rp_joined (ContextProvider_new q s) = rp_joined s"
    by (simp add: rp_joined_def ContextProvider_new_def Let_def)
  show "cp_joined (RuleProvider_new q s) = cp_joined s"
    by (simp add: cp_joined_def RuleProvider_new_def Let_def)
qed

lemma joined_widgets:
  "cp_joined (registerRuleEvaluator ev s) = cp_joined s"
  "rp_joined (registerRuleEvaluator ev s) = rp_joined s"
  "cp_joined (AdaptiveWidget_new nm ad s) = cp_joined s"
  "rp_joined (AdaptiveWidget_new nm ad s) = rp_joined s"
  "cp_joined (set_namespace i ns s) = cp_joined s"
  "rp_joined (set_namespace i ns s) = rp_joined s"
  "cp_joined (fireAdaptation a s) = cp_joined s"
  "rp_joined (fireAdaptation a s) = rp_joined s"
  by (simp_all add: cp_joined_def rp_joined_def registerRuleEvaluator_def AdaptiveWidget_new_def
      set_namespace_def)

lemma reachable_joined: "reachable s \<Longrightarrow> cp_joined s \<and> rp_joined s"
proof (induction rule: reachable.induct)
  case r_init
  show ?case by (simp add: cp_joined_def rp_joined_def init_def AdaptationController_new_def)
next
  case (r_cp_update s q)
  then show ?case by (simp add: CP_updateContext_joined(1) joined_cross_emit)
next
  case (r_rp_update s q)
  then show ?case by (simp add: RP_updateRules_joined(1) joined_cross_emit)
next
  case (r_register_cp s q)
  then show ?case by (simp add: registerContextProvider_joined(1) joined_cross_register)
next
  case (r_register_rp s q)
  then show ?case by (simp add: registerRuleProvider_joined(1) joined_cross_register)
qed (simp_all add: joined_constructors cp_joined_mutators rp_joined_context_mutators
      joined_rule_mutators joined_widgets ngOnDestroy_def)


subsection \<open>The snapshots of one emission, one by one\<close>




section \<open>The claims\<close>

lemmas run_defs = init_def AdaptationController_new_def ContextProvider_new_def RuleProvider_new_def
  addContextParam_def truthy_def registerContextProvider_def registerRuleProvider_def
  cp_notify_def rp_notify_def AC_updateContext_def AC_updateRules_def
  evaluateAdaptationRules_def say_def getRules_def getContext_def
  CP_updateContext_def RP_updateRules_def cp_observers_def rp_observers_def
  addRule_def removeRule_def new_events_def Let_def

lemma one_button_widgets:
  "widgets one_button =
     [\<lparr>widget_name = ''Btn'', namespace = ''left'', adapt = adapt_base, closed = False\<rparr>]"
  by (simp add: one_button_def set_namespace_def AdaptiveWidget_new_def init_def)

lemma two_buttons_widgets:
  "widgets two_buttons =
     [\<lparr>widget_name = ''Btn'', namespace = ''left'', adapt = (\<lambda>a. Some (Thrown ''boom'')),
       closed = False\<rparr>,
      \<lparr>widget_name = ''Btn'', namespace = ''right'', adapt = adapt_base, closed = False\<rparr>]"
  by (simp add: two_buttons_def set_namespace_def AdaptiveWidget_new_def init_def)


text \<open>
  C1.  The claim: an action is delivered to a handler iff its target is the handler's name and
  its scope is absent, empty or contains the handler's namespace; an absent scope is a
  broadcast like the empty one.  The code reads \<^verbatim>\<open>action.scope.length\<close> without a guard: for
  the widget \<^verbatim>\<open>Btn\<close> in namespace \<^verbatim>\<open>left\<close> and the action \<^verbatim>\<open>{target: 'Btn', name: 'SHOW'}\<close>
  the predicate raises a TypeError, \<^verbatim>\<open>adapt\<close> is not called and the subscription ends, so that
  even the same action with the empty scope, which alone is delivered, no longer arrives.
\<close>

theorem C1_absent_scope_is_not_delivered:
  "setupAdaptivity_filter (widgets one_button ! 0) show_unscoped =
     Inl (TypeError ''Cannot read property length of undefined'') \<and>
   new_events one_button (fireAdaptation show_unscoped one_button) =
     [Reported (TypeError ''Cannot read property length of undefined''),
      ActionFired show_unscoped] \<and>
   new_events one_button (fireAdaptation show_all one_button) =
     [Adapted 0 show_all, ActionFired show_all] \<and>
   new_events (fireAdaptation show_unscoped one_button)
     (fireAdaptation show_all (fireAdaptation show_unscoped one_button)) =
     [ActionFired show_all]"
proof -
  have w: "widgets (fireAdaptation show_unscoped one_button) =
      [\<lparr>widget_name = ''Btn'', namespace = ''left'', adapt = adapt_base, closed = True\<rparr>]"
    by (simp add: fireAdaptation_def one_button_widgets deliver_def close_widget_def
        setupAdaptivity_filter_def show_unscoped_def)
  have after: "new_events (fireAdaptation show_unscoped one_button)
     (fireAdaptation show_all (fireAdaptation show_unscoped one_button)) = [ActionFired show_all]"
    by (simp add: fireAdaptation_trace [of show_all] w deliver_events_def)
  show ?thesis
    unfolding after
    by (simp add: fireAdaptation_trace one_button_widgets deliver_events_def
        setupAdaptivity_filter_def show_unscoped_def show_all_def adapt_base_def)
qed




text \<open>
  C3, as amended.  Registering one more producer rebuilds the join over all producers, and the
  rebuild itself publishes exactly one merged snapshot, with no producer emitting: every
  producer, the new one included, contributes the array its subject holds, with the content
  the array has at that moment.  For an earlier producer that is the array it emitted last,
  parameters pushed into it since and never emitted included; for a producer that has never
  emitted it is the initial empty array.  After the rebuild the emission of any single
  registered producer publishes again.
\<close>

theorem C3_rebuild_republishes:
  "let s' = registerContextProvider q s;
       merged = merged_context s @ ctx_arrays s (contextParams_S (contextProvider s q)) in
     contextProviders (controller s') = contextProviders (controller s) @ [q] \<and>
     filter producer_event (new_events s s') = [] \<and>
     filter context_published (new_events s s') = [ContextUpdated merged] \<and>
     getContext s' = merged \<and>
     (\<forall>p \<in> set (contextProviders (controller s')).
        filter context_published (new_events s' (CP_updateContext p s')) \<noteq> [])"
proof -
  let ?s' = "registerContextProvider q s"
  obtain e1 where e1: "trace ?s' = trace s @ e1"
      "filter context_published e1 = [ContextUpdated (merged_context ?s')]"
      "filter producer_event e1 = []"
    using registerContextProvider_joined(3) [of q s] by blast
  have j: "cp_joined ?s'" by (rule registerContextProvider_joined(1))
  have again: "filter context_published (new_events ?s' (CP_updateContext p ?s')) \<noteq> []"
    if p: "p \<in> set (contextProviders (controller ?s'))" for p
  proof -
    obtain evs where evs:
        "trace (CP_updateContext p ?s') = trace ?s' @ ContextEmitted p (params_of p ?s') # evs"
        "length (filter context_published evs) = count_list (contextProviders (controller ?s')) p"
      using CP_updateContext_joined(2) [OF j, of p] by blast
    have "count_list (contextProviders (controller ?s')) p \<noteq> 0"
      using p count_list_0_iff [of "contextProviders (controller ?s')" p] by simp
    then have "filter context_published evs \<noteq> []" using evs(2) by auto
    moreover have "new_events ?s' (CP_updateContext p ?s') = ContextEmitted p (params_of p ?s') # evs"
      using evs(1) by simp
    ultimately show ?thesis by simp
  qed
  show ?thesis
    using e1 again registerContextProvider_joined(2,4,5) [of q s]
    by (simp add: Let_def)
qed

text \<open>
  Witness for C3: the second provider is registered after the join has published twice, and
  the new provider alone then emits; and the second provider is registered after the first
  has pushed a parameter it never emitted, which the snapshot of the rebuild carries.
\<close>

theorem C3_rebuild_republishes_witness:
  "1 \<in> set (contextProviders (controller cx4)) \<and>
   filter context_published (new_events cx4 (CP_updateContext 1 cx4)) \<noteq> [] \<and>
   filter context_published (new_events cx3 cx4) = [ContextUpdated [handedness_left]] \<and>
   filter producer_event (trace al0) = [ContextEmitted 0 [handedness_left]] \<and>
   filter context_published (new_events al0 (registerContextProvider 1 al0)) =
     [ContextUpdated [handedness_left, width_320]]"
proof -
  have p: "1 \<in> set (contextProviders (controller cx4))"
    by (simp add: cx4_def registerContextProvider_joined(2))
  have m: "merged_context cx3 @ ctx_arrays cx3 (contextParams_S (contextProvider cx3 1)) =
      [handedness_left]"
    by (simp add: merged_context_def cx3_def cx2_def cx1_def cx0_def run_defs handedness_left_def)
  have e: "filter producer_event (trace al0) = [ContextEmitted 0 [handedness_left]]"
    by (simp add: al0_def cx2_def cx1_def cx0_def run_defs handedness_left_def width_320_def)
  have m2: "merged_context al0 @ ctx_arrays al0 (contextParams_S (contextProvider al0 1)) =
      [handedness_left, width_320]"
    by (simp add: merged_context_def al0_def cx2_def cx1_def cx0_def run_defs
        handedness_left_def width_320_def)
  show ?thesis
    using p m e m2 C3_rebuild_republishes [of 1 cx3] C3_rebuild_republishes [of 1 al0]
    by (simp add: Let_def cx4_def)
qed

text \<open>
  Counterexample to C3 as stated: the join has published twice; registering the second
  provider publishes a merged snapshot at once, and then the second provider alone emits and
  a merged snapshot follows, though the first provider has not emitted since the rebuild.
\<close>

theorem C3_silence_counterexample:
  "filter context_published (trace cx3) = [ContextUpdated [], ContextUpdated [handedness_left]] \<and>
   new_events cx3 cx4 =
     [ContextUpdated [handedness_left], EvaluationTriggered,
      Logged ''AUI: Evaluation could not be started. No RuleEvaluator set.''] \<and>
   new_events cx4 (CP_updateContext 1 cx4) =
     [ContextEmitted 1 [], ContextUpdated [handedness_left], EvaluationTriggered,
      Logged ''AUI: Evaluation could not be started. No RuleEvaluator set.'']"
  by (simp add: cx4_def cx3_def cx2_def cx1_def cx0_def run_defs handedness_left_def)

text \<open>
  Teardown releases nothing: \<^verbatim>\<open>ngOnDestroy\<close> leaves the state as it is, so an action published
  after it still invokes \<^verbatim>\<open>adapt\<close> when the handler's filter accepts it.  Only a subscription
  that is closed is never served again.
\<close>

lemma ngOnDestroy_releases_nothing:
  "ngOnDestroy j s = s \<and>
   (j < length (widgets s) \<and> \<not> closed (widgets s ! j) \<and>
    setupAdaptivity_filter (widgets s ! j) a = Inr True \<longrightarrow>
      Adapted j a \<in> set (new_events (ngOnDestroy j s) (fireAdaptation a (ngOnDestroy j s)))) \<and>
   (closed (widgets s ! j) \<longrightarrow>
      Adapted j a \<notin> set (new_events s (fold fireAdaptation as s)))"
  by (simp add: ngOnDestroy_def Adapted_in_fireAdaptation closed_no_Adapted)

text \<open>
  C4.  The claim: once the handler's subscription has been released, which is to happen at
  teardown, no action published afterwards invokes its \<^verbatim>\<open>adapt\<close>.  The code: the class
  implements \<^verbatim>\<open>OnDestroy\<close> with an empty \<^verbatim>\<open>ngOnDestroy\<close> and drops the subscription that
  \<^verbatim>\<open>setupAdaptivity\<close> creates.  For the button \<^verbatim>\<open>Btn\<close> in namespace \<^verbatim>\<open>left\<close>, torn down, the
  subscription is still open and the action \<^verbatim>\<open>{target: 'Btn', scope: [], name: 'SHOW'}\<close>
  published afterwards invokes its \<^verbatim>\<open>adapt\<close>.
\<close>

theorem C4_teardown_leaves_subscription_open:
  "ngOnDestroy 0 one_button = one_button \<and>
   \<not> closed (widgets (ngOnDestroy 0 one_button) ! 0) \<and>
   new_events (ngOnDestroy 0 one_button) (fireAdaptation show_all (ngOnDestroy 0 one_button)) =
     [Adapted 0 show_all, ActionFired show_all]"
  by (simp add: ngOnDestroy_def fireAdaptation_trace one_button_widgets deliver_events_def
      setupAdaptivity_filter_def show_all_def adapt_base_def)

text \<open>
  C5.  Publishing a merged context or a merged rule set invokes the evaluation trigger exactly
  once and stores the merged value; without a rule evaluator the only further effect is the
  diagnostic line, nothing is raised.
\<close>

theorem C5_trigger_once_and_skip:
  "filter trigger (new_events s (AC_updateContext ps s)) = [EvaluationTriggered] \<and>
   filter trigger (new_events s (AC_updateRules rs s)) = [EvaluationTriggered] \<and>
   getContext (AC_updateContext ps s) = ps \<and>
   getRules (AC_updateRules rs s) = rs \<and>
   (ruleEvaluator (controller s) = None \<longrightarrow>
      new_events s (AC_updateContext ps s) =
        [ContextUpdated ps, EvaluationTriggered,
         Logged ''AUI: Evaluation could not be started. No RuleEvaluator set.''] \<and>
      new_events s (AC_updateRules rs s) =
        [RulesUpdated rs, EvaluationTriggered,
         Logged ''AUI: Evaluation could not be started. No RuleEvaluator set.''] \<and>
      widgets (AC_updateContext ps s) = widgets s \<and>
      widgets (AC_updateRules rs s) = widgets s)"
proof -
  obtain e1 where e1: "list_all dispatch_event e1"
    "trace (AC_updateContext ps s) =
       trace s @ ContextUpdated ps # EvaluationTriggered #
         (case ruleEvaluator (controller s) of
            None \<Rightarrow> Logged ''AUI: Evaluation could not be started. No RuleEvaluator set.''
          | Some ev \<Rightarrow> Evaluated (getRules s) ps) # e1"
    "ruleEvaluator (controller s) = None \<longrightarrow> e1 = []"
    using AC_updateContext_shape by blast
  obtain e2 where e2: "list_all dispatch_event e2"
    "trace (AC_updateRules rs s) =
       trace s @ RulesUpdated rs # EvaluationTriggered #
         (case ruleEvaluator (controller s) of
            None \<Rightarrow> Logged ''AUI: Evaluation could not be started. No RuleEvaluator set.''
          | Some ev \<Rightarrow> Evaluated rs (getContext s)) # e2"
    "ruleEvaluator (controller s) = None \<longrightarrow> e2 = []"
    using AC_updateRules_shape by blast
  have f1: "filter trigger e1 = []"
    using e1(1) by (rule filter_dispatch_none) (auto elim: dispatch_event.elims)
  have f2: "filter trigger e2 = []"
    using e2(1) by (rule filter_dispatch_none) (auto elim: dispatch_event.elims)
  have w: "ruleEvaluator (controller s) = None \<Longrightarrow>
      widgets (AC_updateContext ps s) = widgets s \<and> widgets (AC_updateRules rs s) = widgets s"
    by (simp add: AC_updateContext_def AC_updateRules_def evaluateAdaptationRules_def)
  show ?thesis
    using e1(2,3) e2(2,3) f1 f2 w
    by (auto simp add: getContext_def getRules_def split: option.splits)
qed

text \<open>Witness for C5: the fresh controller has no rule evaluator.\<close>

theorem C5_trigger_once_and_skip_witness:
  "ruleEvaluator (controller init) = None \<and>
   new_events init (AC_updateContext [handedness_left] init) =
     [ContextUpdated [handedness_left], EvaluationTriggered,
      Logged ''AUI: Evaluation could not be started. No RuleEvaluator set.''] \<and>
   getContext (AC_updateContext [handedness_left] init) = [handedness_left]"
proof -
  have h: "ruleEvaluator (controller init) = None"
    by (simp add: init_def AdaptationController_new_def)
  show ?thesis using h C5_trigger_once_and_skip [of init "[handedness_left]" "[]"] by simp
qed

text \<open>
  C6.  When the \<^verbatim>\<open>adapt\<close> of one handler raises while an action is delivered, every other
  handler that is subscribed and whose filter accepts the action still has its \<^verbatim>\<open>adapt\<close>
  invoked, wherever the two stand in the subscriber order.
\<close>

theorem C6_failures_isolated:
  "\<lbrakk>i < length (widgets s); adapt (widgets s ! i) a = Some e;
    j < length (widgets s); \<not> closed (widgets s ! j);
    setupAdaptivity_filter (widgets s ! j) a = Inr True\<rbrakk>
   \<Longrightarrow> Adapted j a \<in> set (new_events s (fireAdaptation a s))"
  by (simp add: Adapted_in_fireAdaptation)

text \<open>Witness for C6: the first button raises, the second one is served.\<close>

theorem C6_failures_isolated_witness:
  "(0::nat) < length (widgets two_buttons) \<and>
   adapt (widgets two_buttons ! 0) show_all = Some (Thrown ''boom'') \<and>
   1 < length (widgets two_buttons) \<and> \<not> closed (widgets two_buttons ! 1) \<and>
   setupAdaptivity_filter (widgets two_buttons ! 1) show_all = Inr True \<and>
   Adapted 1 show_all \<in> set (new_events two_buttons (fireAdaptation show_all two_buttons))"
proof -
  have h: "(0::nat) < length (widgets two_buttons) \<and>
     adapt (widgets two_buttons ! 0) show_all = Some (Thrown ''boom'') \<and>
     1 < length (widgets two_buttons) \<and> \<not> closed (widgets two_buttons ! 1) \<and>
     setupAdaptivity_filter (widgets two_buttons ! 1) show_all = Inr True"
    by (simp add: two_buttons_widgets setupAdaptivity_filter_def show_all_def)
  show ?thesis
    using h C6_failures_isolated [of 0 two_buttons show_all "Thrown ''boom''" 1] by simp
qed

text \<open>
  C7, as amended.  On a rule provider whose join is in step with it (\<open>rp_joined\<close>, which
  holds in every reachable state), \<^verbatim>\<open>addRule\<close> causes
  exactly one emission of that provider, carrying the rule, and one invocation of the
  evaluation trigger for each time the provider was registered: exactly one for a provider
  registered once.  Every merged rule set published or handed to the strategy on the way
  contains the added rule, and so does the merged rule set the controller holds afterwards.
\<close>

theorem C7_addRule_propagates:
  assumes "rp_joined s"
  shows "let s' = addRule q r s; n = count_list (ruleProviders (controller s)) q in
     rp_joined s' \<and>
     filter producer_event (new_events s s') = [RulesEmitted q (rules_of q s @ [r])] \<and>
     length (filter trigger (new_events s s')) = n \<and>
     length (filter rules_published (new_events s s')) = n \<and>
     list_all (rules_seen r) (new_events s s') \<and>
     (q \<in> set (ruleProviders (controller s)) \<longrightarrow>
        r \<in> set (getRules s') \<and> getRules s' = merged_rules s')"
proof -
  let ?a = "rules (ruleProvider s q)"
  let ?s0 = "s\<lparr>rule_arrays := (rule_arrays s)(?a := rule_arrays s ?a @ [r])\<rparr>"
  let ?s' = "RP_updateRules q ?s0"
  let ?ps = "ruleProviders (controller s)"
  have s': "addRule q r s = ?s'" by (simp add: addRule_def Let_def)
  have j0: "rp_joined ?s0" using assms by (simp add: rp_joined_def)
  have r0: "rules_of q ?s0 = rules_of q s @ [r]" by (simp add: rules_of_def)
  obtain evs where evs: "trace ?s' = trace ?s0 @ RulesEmitted q (rules_of q ?s0) # evs"
      "length (filter rules_published evs) = count_list (ruleProviders (controller ?s0)) q"
      "length (filter trigger evs) = count_list (ruleProviders (controller ?s0)) q"
      "filter producer_event evs = []"
      "q \<in> set (ruleProviders (controller ?s0)) \<longrightarrow> getRules ?s' = merged_rules ?s'"
    using RP_updateRules_joined(2) [OF j0, of q] by blast
  have ne: "new_events s ?s' = RulesEmitted q (rules_of q s @ [r]) # evs"
    using evs(1) r0 by simp
  let ?s1 = "say (RulesEmitted q (rule_arrays ?s0 ?a))
               (?s0\<lparr>ruleProvider := (ruleProvider ?s0)(q := (ruleProvider ?s0 q)\<lparr>rules_S := ?a\<rparr>)\<rparr>)"
  have len: "length (rpSubscription (controller s)) = length ?ps"
    using assms by (simp add: rp_joined_def)
  have run: "?s' = fold (rp_notify ?a) (rp_observers ?s0 q) ?s1"
    by (simp add: RP_updateRules_def Let_def)
  have "rp_full ?s1" using rp_joined_full [OF j0] by (simp add: rp_full_def)
  moreover have "\<forall>j\<in>set (rp_observers ?s0 q). j < length (rpSubscription (controller ?s1))"
    by (simp add: rp_observers_def)
  moreover have "r \<in> set (rule_arrays ?s1 ?a)" by simp
  ultimately obtain evs' where evs': "trace ?s' = trace ?s1 @ evs'" "list_all (rules_seen r) evs'"
    unfolding run using fold_rp_notify_seen [of ?s1 "rp_observers ?s0 q" r ?a] by blast
  have "evs' = evs" using evs(1) evs'(1) by (simp add: rules_of_def)
  then have seen: "list_all (rules_seen r) evs" using evs'(2) by simp
  have inn: "r \<in> set (getRules ?s')" if "q \<in> set ?ps"
  proof -
    have "merged_rules ?s' =
        concat (map (\<lambda>x. if x = q then rules_of q ?s0
                        else rule_arrays ?s0 (rules_S (ruleProvider ?s0 x))) ?ps)"
      using RP_updateRules_joined(3) [OF j0, of q] by simp
    then have "set (rules_of q ?s0) \<subseteq> set (merged_rules ?s')"
      using that by auto
    then show ?thesis using evs(5) that r0 by auto
  qed
  show ?thesis
    unfolding s'
    using RP_updateRules_joined(1) [OF j0, of q] evs(2-5) seen inn
    by (simp add: Let_def ne)
qed

text \<open>Witness for C7: a rule is added to the provider that is registered once.\<close>

theorem C7_addRule_propagates_witness:
  "rp_joined rx1 \<and> 0 \<in> set (ruleProviders (controller rx1)) \<and>
   count_list (ruleProviders (controller rx1)) 0 = 1 \<and>
   length (filter trigger (new_events rx1 (addRule 0 rule_R rx1))) = 1 \<and>
   rule_R \<in> set (getRules (addRule 0 rule_R rx1))"
proof -
  have j: "rp_joined rx1"
    unfolding rx1_def by (rule registerRuleProvider_joined(1))
  have n: "ruleProviders (controller rx1) = [0]"
    by (simp add: rx1_def registerRuleProvider_joined(2) RuleProvider_new_def init_def
        AdaptationController_new_def Let_def)
  show ?thesis
    using j n C7_addRule_propagates [OF j, of 0 rule_R] by (auto simp add: Let_def)
qed

text \<open>
  Counterexample to C7 as stated: the provider is registered twice, its join is in step, and
  one \<^verbatim>\<open>addRule\<close> invokes the evaluation trigger twice.
\<close>

theorem C7_registered_twice_counterexample:
  "ruleProviders (controller rx2) = [0, 0] \<and>
   rpSubscription (controller rx2) = [Some (rules_S (ruleProvider rx2 0)), Some (rules_S (ruleProvider rx2 0))] \<and>
   filter producer_event (new_events rx2 (addRule 0 rule_R rx2)) = [RulesEmitted 0 [rule_R]] \<and>
   filter trigger (new_events rx2 (addRule 0 rule_R rx2)) = [EvaluationTriggered, EvaluationTriggered]"
  by (simp add: rx2_def rx1_def run_defs rule_R_def show_all_def)

text \<open>
  C8.  Removing a name that no rule of the provider bears leaves the provider's rules as they
  are; the snapshot the call emits, the value the subject holds afterwards and the snapshot of
  a following \<^verbatim>\<open>updateRules\<close> are the rule sequence from before the call.
\<close>

theorem C8_removeRule_absent:
  assumes "nm \<notin> rule_name ` set (rules_of q s)"
  shows "let s' = removeRule q nm s in
     rules_of q s' = rules_of q s \<and>
     filter producer_event (new_events s s') = [RulesEmitted q (rules_of q s)] \<and>
     rule_arrays s' (rules_S (ruleProvider s' q)) = rules_of q s \<and>
     filter producer_event (new_events s' (RP_updateRules q s')) = [RulesEmitted q (rules_of q s)]"
proof -
  let ?a = "rules (ruleProvider s q)"
  let ?b = "rule_fresh s"
  let ?s0 = "s\<lparr>rule_arrays := (rule_arrays s)(?b := filter (\<lambda>rule. rule_name rule \<noteq> nm) (rule_arrays s ?a)),
               rule_fresh := Suc ?b,
               ruleProvider := (ruleProvider s)(q := (ruleProvider s q)\<lparr>rules := ?b\<rparr>)\<rparr>"
  let ?s' = "RP_updateRules q ?s0"
  have s': "removeRule q nm s = ?s'" by (simp add: removeRule_def Let_def)
  have keep: "filter (\<lambda>rule. rule_name rule \<noteq> nm) (rule_arrays s ?a) = rule_arrays s ?a"
    using assms by (auto simp add: rules_of_def filter_id_conv)
  have r0: "rules_of q ?s0 = rules_of q s" using keep by (simp add: rules_of_def)
  obtain e1 where e1: "trace ?s' = trace ?s0 @ RulesEmitted q (rules_of q ?s0) # e1"
      "filter producer_event e1 = []"
    using RP_updateRules_emits(1) [of q ?s0] by blast
  have r': "rules_of q ?s' = rules_of q s"
    "rule_arrays ?s' (rules_S (ruleProvider ?s' q)) = rules_of q s"
    using r0 by (simp_all add: rules_of_def RP_updateRules_emits(2,3))
  obtain e2 where e2: "trace (RP_updateRules q ?s') = trace ?s' @ RulesEmitted q (rules_of q ?s') # e2"
      "filter producer_event e2 = []"
    using RP_updateRules_emits(1) [of q ?s'] by blast
  have n1: "new_events s ?s' = RulesEmitted q (rules_of q s) # e1"
    using e1(1) r0 by simp
  have n2: "new_events ?s' (RP_updateRules q ?s') = RulesEmitted q (rules_of q s) # e2"
    using e2(1) r'(1) by simp
  show ?thesis
    unfolding s' Let_def n1 n2 using r' e1(2) e2(2) by simp
qed

text \<open>Witness for C8: the provider holds the rule \<open>R\<close>, the name \<open>S\<close> is removed.\<close>

theorem C8_removeRule_absent_witness:
  "''S'' \<notin> rule_name ` set (rules_of 0 (addRule 0 rule_R rx1)) \<and>
   rules_of 0 (removeRule 0 ''S'' (addRule 0 rule_R rx1)) = [rule_R] \<and>
   filter producer_event
     (new_events (addRule 0 rule_R rx1) (removeRule 0 ''S'' (addRule 0 rule_R rx1))) =
     [RulesEmitted 0 [rule_R]]"
proof -
  have r: "rules_of 0 (addRule 0 rule_R rx1) = [rule_R]"
    by (simp add: rules_of_def rx1_def run_defs)
  have h: "''S'' \<notin> rule_name ` set (rules_of 0 (addRule 0 rule_R rx1))"
    unfolding r by (simp add: rule_R_def)
  show ?thesis
    using h r C8_removeRule_absent [OF h] by (simp add: Let_def)
qed

text \<open>
  C9.  \<^verbatim>\<open>addContextParam\<close> appends the parameter to the provider's list whatever the list
  holds (the array that \<^verbatim>\<open>filter\<close> returns is always truthy), and emits nothing; adding a
  parameter twice leaves its key twice in the list, and the next snapshot carries both.
\<close>

theorem C9_addContextParam_appends:
  "params_of q (addContextParam q p s) = params_of q s @ [p] \<and>
   new_events s (addContextParam q p s) = [] \<and>
   map key (params_of q (addContextParam q p (addContextParam q p s))) =
     map key (params_of q s) @ [key p, key p] \<and>
   filter producer_event
     (new_events (addContextParam q p (addContextParam q p s))
        (CP_updateContext q (addContextParam q p (addContextParam q p s)))) =
     [ContextEmitted q (params_of q s @ [p, p])]"
proof -
  let ?s2 = "addContextParam q p (addContextParam q p s)"
  obtain evs where evs: "trace (CP_updateContext q ?s2) = trace ?s2 @ ContextEmitted q (params_of q ?s2) # evs"
      "filter producer_event evs = []"
    using CP_updateContext_emits(1) [of q ?s2] by blast
  have "new_events ?s2 (CP_updateContext q ?s2) = ContextEmitted q (params_of q ?s2) # evs"
    using evs(1) by simp
  then show ?thesis
    using evs(2) by (simp add: addContextParam_simps new_events_def)
qed

text \<open>
  Witness for C9: the provider of the scenario already holds the parameter; it is added once
  more and the list holds it twice.
\<close>

theorem C9_addContextParam_appends_witness:
  "params_of 0 (addContextParam 0 handedness_left cx0) = [handedness_left, handedness_left] \<and>
   new_events cx0 (addContextParam 0 handedness_left cx0) = []"
proof -
  have p: "params_of 0 cx0 = [handedness_left]"
    by (simp add: params_of_def cx0_def run_defs)
  show ?thesis
    using p C9_addContextParam_appends [of 0 handedness_left cx0] by simp
qed

text \<open>
  C10.  When the key occurs, \<open>old\<close> being the first parameter that bears it,
  \<^verbatim>\<open>modifyContextParam\<close> leaves the parameters with other keys in their order and puts after
  them one parameter, \<open>old\<close> with the new value; nothing is emitted and the subject keeps its
  value.  When the key does not occur the call changes nothing.
\<close>

theorem C10_modifyContextParam:
  "(params_of q s = xs @ old # ys \<and> key old = k \<and> k \<notin> key ` set xs \<longrightarrow>
      (let s' = modifyContextParam q k v s in
       params_of q s' = xs @ filter (\<lambda>param. key param \<noteq> k) ys @ [old\<lparr>val := v\<rparr>] \<and>
       params_of q s' = filter (\<lambda>param. key param \<noteq> k) (params_of q s) @
         [\<lparr>contextOfUse = contextOfUse old, ptype = ptype old, key = k, val = v\<rparr>] \<and>
       new_events s s' = [] \<and>
       controller s' = controller s \<and>
       contextParams_S (contextProvider s' q) = contextParams_S (contextProvider s q))) \<and>
   (k \<notin> key ` set (params_of q s) \<longrightarrow> modifyContextParam q k v s = s)"
proof -
  have found: "let s' = modifyContextParam q k v s in
       params_of q s' = xs @ filter (\<lambda>param. key param \<noteq> k) ys @ [old\<lparr>val := v\<rparr>] \<and>
       params_of q s' = filter (\<lambda>param. key param \<noteq> k) (params_of q s) @
         [\<lparr>contextOfUse = contextOfUse old, ptype = ptype old, key = k, val = v\<rparr>] \<and>
       new_events s s' = [] \<and>
       controller s' = controller s \<and>
       contextParams_S (contextProvider s' q) = contextParams_S (contextProvider s q)"
    if h: "params_of q s = xs @ old # ys" "key old = k" "k \<notin> key ` set xs"
  proof -
    have "find (\<lambda>param. key param = k) (xs @ old # ys) = Some old"
      using h(2,3) by (induction xs) auto
    then have f: "find (\<lambda>param. key param = k) (params_of q s) = Some old"
      using h(1) by simp
    have keep: "filter (\<lambda>param. key param \<noteq> k) xs = xs"
      using h(3) by (auto simp add: filter_id_conv)
    show ?thesis
      using modifyContextParam_found [OF f, of v] h(1,2) keep
      by (simp add: Let_def new_events_def)
  qed
  show ?thesis using found modifyContextParam_missing [of k q s v] by blast
qed

text \<open>
  Witness for C10: the provider of the scenario holds one parameter with the key
  \<open>handedness\<close>; its value is replaced, and a key that does not occur changes nothing.
\<close>

theorem C10_modifyContextParam_witness:
  "params_of 0 cx0 = [] @ handedness_left # [] \<and> key handedness_left = ''handedness'' \<and>
   ''handedness'' \<notin> key ` set [] \<and>
   params_of 0 (modifyContextParam 0 ''handedness'' (JStr ''right'') cx0) =
     [\<lparr>contextOfUse = User, ptype = None, key = ''handedness'', val = JStr ''right''\<rparr>] \<and>
   ''theme'' \<notin> key ` set (params_of 0 cx0) \<and>
   modifyContextParam 0 ''theme'' (JStr ''dark'') cx0 = cx0"
proof -
  have p: "params_of 0 cx0 = [] @ handedness_left # []"
    by (simp add: params_of_def cx0_def run_defs)
  have k: "key handedness_left = ''handedness''" "''handedness'' \<notin> key ` set []"
    by (simp_all add: handedness_left_def)
  have t: "''theme'' \<notin> key ` set (params_of 0 cx0)"
    by (simp add: p handedness_left_def)
  show ?thesis
    using p k t
      C10_modifyContextParam [of 0 cx0 "[]" handedness_left "[]" "''handedness''" "JStr ''right''"]
      C10_modifyContextParam [of 0 cx0 "[]" handedness_left "[]" "''theme''" "JStr ''dark''"]
    by (simp add: Let_def handedness_left_def)
qed

end
